theory Spec2Isabelle
  imports Main
begin

section \<open>Data model of bot.js\<close>

text \<open>
  The bot keeps one mutable "queue data" object per guild in the global \<open>queues\<close> Map.
  Closures (timer callbacks, player listeners, the suspended part of \<open>playNextTrack\<close>)
  hold on to such an object after it has left the Map, so objects live in an explicit
  store addressed by references, and the Map takes a guild id to a reference.
\<close>

type_synonym guildId = string
type_synonym ref = nat
type_synonym timerId = nat

text \<open>What \<open>searchYouTube\<close> returns, and the track \<open>{...videoInfo, requestedBy}\<close>.\<close>

record videoInfo =
  title :: string
  url :: string
  duration :: nat
  thumbnail :: "string option"

record track = videoInfo +
  requestedBy :: string

text \<open>Configuration constants (bot.js lines 54-55) and the \<open>LoopMode\<close> numbers (73-77).\<close>

definition IDLE_TIMEOUT :: nat where
  "IDLE_TIMEOUT = 300000"

definition MAX_RETRIES :: nat where
  "MAX_RETRIES = 2"

definition LoopMode_OFF :: nat where
  "LoopMode_OFF = 0"

definition LoopMode_TRACK :: nat where
  "LoopMode_TRACK = 1"

definition LoopMode_QUEUE :: nat where
  "LoopMode_QUEUE = 2"

text \<open>
  The audio player of the voice library, as far as bot.js looks at it: its status, and
  whether the \<open>Idle\<close>/\<open>error\<close> listeners of \<open>commandPlay\<close> are attached (they
  capture the guild id).
\<close>

datatype AudioPlayerStatus = Idle | Playing | Paused

record audioPlayer =
  status :: AudioPlayerStatus
  listeners :: "guildId option"

datatype voiceConnection = Ready | Destroyed

record session =
  queue :: "track list"
  player :: audioPlayer
  connection :: "voiceConnection option"
  currentTrack :: "track option"
  isPlaying :: bool
  loopMode :: nat
  idleTimeout :: "timerId option"
  textChannel :: "string option"
  retryCount :: nat

text \<open>The two closures handed to \<open>setTimeout\<close>: the idle expiry of \<open>setIdleTimeout\<close>
  (it captures the queue object and the guild id) and \<open>() => playNextTrack(guildId)\<close>.\<close>

datatype callback = IdleExpired guildId ref | PlayNext guildId

datatype notice = NowPlayingEmbed track | PlaybackErrorEmbed track

text \<open>What a \<open>%play\<close> message carries, with the answers of the collaborators the
  command asks on its way: the result \<open>searchYouTube\<close> will give for the query, and the
  bot's voice permissions.\<close>

record playMessage =
  guild :: guildId
  inVoice :: bool
  args :: "string list"
  found :: "videoInfo option"
  permitted :: bool
  author :: string
  channel :: string

text \<open>
  The whole state: the \<open>queues\<close> Map, the object store, the pending timers of the
  event loop (handle, delay in ms, callback), the calls of \<open>playNextTrack\<close> suspended
  at \<open>await play.stream(track.url)\<close>, the trace of those \<open>play.stream\<close> calls, and
  the embeds sent to text channels. \<open>immediateStop\<close> is the one thing the voice
  library decides: whether \<open>player.stop()\<close> emits \<open>Idle\<close> before it returns or
  (with silence padding, the default of \<open>createAudioResource\<close>) later. The last two
  fields hold the \<open>commandPlay\<close> handlers suspended at \<open>await searchYouTube(query)\<close>
  (with the message and the queue object they captured) and at
  \<open>await searchMsg.edit(...)\<close>.
\<close>

record world =
  queues :: "guildId \<rightharpoonup> ref"
  heap :: "ref \<Rightarrow> session"
  nextRef :: ref
  timers :: "(timerId \<times> nat \<times> callback) list"
  nextTimer :: timerId
  loading :: "(guildId \<times> ref \<times> track) list"
  streamRequests :: "track list"
  sent :: "(string \<times> notice) list"
  immediateStop :: bool
  searching :: "(playMessage \<times> ref) list"
  editing :: "(guildId \<times> ref) list"

datatype reply =
    NotInVoiceChannel
  | NoSongSpecified
  | NotFound
  | MissingPermissions
  | NowPlaying nat
  | AddedToQueue nat
  | NothingPlaying
  | Skipped track
  | Stopped
  | LoopModeChanged nat
  | CommandError

section \<open>Operations\<close>

definition newSession :: session where
  "newSession = \<lparr>queue = [], player = \<lparr>status = Idle, listeners = None\<rparr>,
     connection = None, currentTrack = None, isPlaying = False,
     loopMode = LoopMode_OFF, idleTimeout = None, textChannel = None, retryCount = 0\<rparr>"

text \<open>\<open>getQueue\<close> (lines 82-97): get or create the queue object of a guild.\<close>

definition getQueue :: "guildId \<Rightarrow> world \<Rightarrow> ref \<times> world" where
  "getQueue g w =
     (case queues w g of
        Some r \<Rightarrow> (r, w)
      | None \<Rightarrow>
          (nextRef w,
           w\<lparr>queues := (queues w)(g \<mapsto> nextRef w),
             heap := (heap w)(nextRef w := newSession),
             nextRef := Suc (nextRef w)\<rparr>))"

text \<open>Assignment to fields of the object at a reference.\<close>

definition modify :: "ref \<Rightarrow> (session \<Rightarrow> session) \<Rightarrow> world \<Rightarrow> world" where
  "modify r f w = w\<lparr>heap := (heap w)(r := f (heap w r))\<rparr>"

definition setTimeout :: "callback \<Rightarrow> nat \<Rightarrow> world \<Rightarrow> timerId \<times> world" where
  "setTimeout cb ms w =
     (nextTimer w,
      w\<lparr>timers := timers w @ [(nextTimer w, ms, cb)], nextTimer := Suc (nextTimer w)\<rparr>)"

definition clearTimeout :: "timerId \<Rightarrow> world \<Rightarrow> world" where
  "clearTimeout tid w = w\<lparr>timers := filter (\<lambda>e. fst e \<noteq> tid) (timers w)\<rparr>"

text \<open>\<open>clearIdleTimeout\<close> (lines 128-134).\<close>

definition clearIdleTimeout :: "guildId \<Rightarrow> world \<Rightarrow> world" where
  "clearIdleTimeout g w =
     (case queues w g of
        None \<Rightarrow> w
      | Some r \<Rightarrow>
          (case idleTimeout (heap w r) of
             None \<Rightarrow> w
           | Some tid \<Rightarrow> modify r (\<lambda>q. q\<lparr>idleTimeout := None\<rparr>) (clearTimeout tid w)))"

text \<open>\<open>setIdleTimeout\<close> (lines 139-150).\<close>

definition setIdleTimeout :: "guildId \<Rightarrow> world \<Rightarrow> world" where
  "setIdleTimeout g w =
     (let w1 = clearIdleTimeout g w in
      case queues w1 g of
        None \<Rightarrow> w1
      | Some r \<Rightarrow>
          (let (tid, w2) = setTimeout (IdleExpired g r) IDLE_TIMEOUT w1
           in modify r (\<lambda>q. q\<lparr>idleTimeout := Some tid\<rparr>) w2))"

text \<open>
  \<open>playNextTrack\<close> (lines 155-240) is an async function. This is the part that runs
  at the call, up to \<open>await play.stream(track.url)\<close>: the empty-queue return, the
  selection of the track, and the request for its stream, left suspended in \<open>loading\<close>.
\<close>

definition playNextTrack :: "guildId \<Rightarrow> world \<Rightarrow> world" where
  "playNextTrack g w =
     (let (r, w1) = getQueue g w in
      case queue (heap w1 r) of
        [] \<Rightarrow>
          setIdleTimeout g (modify r (\<lambda>q. q\<lparr>currentTrack := None, isPlaying := False\<rparr>) w1)
      | x # xs \<Rightarrow>
          (let w2 = clearIdleTimeout g w1;
               q = heap w2 r;
               reuse = (if loopMode q = LoopMode_TRACK then currentTrack q else None);
               tr = (case reuse of Some c \<Rightarrow> c | None \<Rightarrow> x);
               w3 = (case reuse of
                       Some c \<Rightarrow> w2
                     | None \<Rightarrow>
                         modify r (\<lambda>q. q\<lparr>queue :=
                           (if loopMode q = LoopMode_QUEUE then xs @ [x] else xs)\<rparr>) w2);
               w4 = modify r (\<lambda>q. q\<lparr>currentTrack := Some tr, isPlaying := True,
                                       retryCount := 0\<rparr>) w3
           in w4\<lparr>loading := loading w4 @ [(g, r, tr)],
                 streamRequests := streamRequests w4 @ [tr]\<rparr>))"

text \<open>
  The rest of \<open>playNextTrack\<close>, resumed when \<open>play.stream\<close> settles for the suspended
  call \<open>(g, r, tr)\<close>: the \<open>try\<close> body on success, the \<open>catch\<close> block on failure. It
  works on the queue object it captured before the await. The failure modelled is the
  one of \<open>play.stream\<close>; creating the resource and sending the embed are taken to succeed.
\<close>

definition playNextTrack_resume :: "bool \<Rightarrow> guildId \<times> ref \<times> track \<Rightarrow> world \<Rightarrow> world" where
  "playNextTrack_resume ok c w =
     (case c of (g, r, tr) \<Rightarrow>
        if ok then
          (let w1 = modify r (\<lambda>q. q\<lparr>player := (player q)\<lparr>status := Playing\<rparr>\<rparr>) w
           in case textChannel (heap w1 r) of
                None \<Rightarrow> w1
              | Some ch \<Rightarrow> w1\<lparr>sent := sent w1 @ [(ch, NowPlayingEmbed tr)]\<rparr>)
        else if retryCount (heap w r) < MAX_RETRIES then
          snd (setTimeout (PlayNext g) 1000
                 (modify r (\<lambda>q. q\<lparr>retryCount := retryCount q + 1\<rparr>) w))
        else
          (let w1 = (case textChannel (heap w r) of
                       None \<Rightarrow> w
                     | Some ch \<Rightarrow> w\<lparr>sent := sent w @ [(ch, PlaybackErrorEmbed tr)]\<rparr>)
           in snd (setTimeout (PlayNext g) 500 w1)))"

text \<open>The \<open>AudioPlayerStatus.Idle\<close> listener of \<open>commandPlay\<close> (lines 385-392), run
  when the player of the object at \<open>r\<close> goes idle.\<close>

definition playerIdle :: "ref \<Rightarrow> world \<Rightarrow> world" where
  "playerIdle r w =
     (let w1 = modify r (\<lambda>q. q\<lparr>player := (player q)\<lparr>status := Idle\<rparr>\<rparr>) w in
      case listeners (player (heap w1 r)) of
        None \<Rightarrow> w1
      | Some g \<Rightarrow>
          if loopMode (heap w1 r) \<noteq> LoopMode_TRACK then playNextTrack g w1
          else snd (setTimeout (PlayNext g) 100 w1))"

text \<open>The \<open>error\<close> listener (lines 394-399).\<close>

definition playerError :: "ref \<Rightarrow> world \<Rightarrow> world" where
  "playerError r w =
     (case listeners (player (heap w r)) of
        None \<Rightarrow> w
      | Some g \<Rightarrow> playNextTrack g w)"

text \<open>
  \<open>queue.player.stop()\<close>: nothing on an idle player; otherwise the player goes idle,
  within the call when \<open>immediateStop\<close> holds, and else later, as a \<open>PlayerIdle\<close> event.
\<close>

definition player_stop :: "ref \<Rightarrow> world \<Rightarrow> world" where
  "player_stop r w =
     (if status (player (heap w r)) = Idle then w
      else if immediateStop w then playerIdle r w
      else w)"

definition trackOf :: "videoInfo \<Rightarrow> string \<Rightarrow> track" where
  "trackOf v a = \<lparr>title = title v, url = url v, duration = duration v,
                   thumbnail = thumbnail v, requestedBy = a\<rparr>"

text \<open>
  \<open>commandPlay\<close> (lines 293-426) is an async function with two places where other
  events are handled before it goes on: the awaits of lines 324 and 327 (the "Searching"
  reply and the search; nothing is read or written between them), and the await of
  \<open>searchMsg.edit\<close> at line 420. It is modelled in the three parts these cut it into.
  Building and sending the embeds is taken to succeed.

  First part, lines 294-317: \<open>getQueue\<close>, then the two guards. It ends with a reply, or
  suspended with the queue object it got.
\<close>

definition commandPlay_begin :: "playMessage \<Rightarrow> world \<Rightarrow> (reply + ref) \<times> world" where
  "commandPlay_begin m w =
     (let (r, w1) = getQueue (guild m) w in
      if \<not> inVoice m then (Inl NotInVoiceChannel, w1)
      else if args m = [] then (Inl NoSongSpecified, w1)
      else (Inr r, w1))"

text \<open>Second part, lines 329-418, run when the search has settled: the push, the voice
  connection with its listeners, and the embed, whose title and position are read from
  the queue object here. The flag tells whether the handler goes on to
  \<open>await searchMsg.edit\<close> (it does not after "Not Found" and "Missing Permissions").\<close>

definition commandPlay_found :: "playMessage \<Rightarrow> ref \<Rightarrow> world \<Rightarrow> reply \<times> bool \<times> world" where
  "commandPlay_found m r w =
     (case found m of
        None \<Rightarrow> (NotFound, False, w)
      | Some v \<Rightarrow>
          (let tr = trackOf v (author m);
               w2 = modify r (\<lambda>q. q\<lparr>queue := queue q @ [tr],
                                       textChannel := Some (channel m)\<rparr>) w
           in if connection (heap w2 r) = None \<and> \<not> permitted m
              then (MissingPermissions, False, w2)
              else
                (let w3 = (if connection (heap w2 r) = None
                           then modify r (\<lambda>q. q\<lparr>connection := Some Ready,
                                  player := (player q)\<lparr>listeners := Some (guild m)\<rparr>\<rparr>) w2
                           else w2);
                     q = heap w3 r;
                     pos = length (queue q) + (if isPlaying q then 1 else 0)
                 in (if isPlaying q then AddedToQueue pos else NowPlaying pos, True, w3))))"

text \<open>Third part, lines 422-425, run when the edit has settled: \<open>isPlaying\<close> is read
  again, from the queue object captured at the start.\<close>

definition commandPlay_finish :: "guildId \<Rightarrow> ref \<Rightarrow> world \<Rightarrow> world" where
  "commandPlay_finish g r w = (if \<not> isPlaying (heap w r) then playNextTrack g w else w)"

text \<open>A \<open>%play\<close> whose handler runs from its first statement to its last with no other
  event in between: the three parts back to back.\<close>

definition commandPlay :: "playMessage \<Rightarrow> world \<Rightarrow> reply \<times> world" where
  "commandPlay m w =
     (case commandPlay_begin m w of
        (Inl rp, w1) \<Rightarrow> (rp, w1)
      | (Inr r, w1) \<Rightarrow>
          (case commandPlay_found m r w1 of
             (rp, goesOn, w2) \<Rightarrow>
               (rp, if goesOn then commandPlay_finish (guild m) r w2 else w2)))"

text \<open>\<open>commandSkip\<close> (lines 431-475).\<close>

definition commandSkip :: "guildId \<Rightarrow> bool \<Rightarrow> world \<Rightarrow> reply \<times> world" where
  "commandSkip g inVoiceChannel w =
     (if \<not> inVoiceChannel then (NotInVoiceChannel, w)
      else case queues w g of
        None \<Rightarrow> (NothingPlaying, w)
      | Some r \<Rightarrow>
          if \<not> isPlaying (heap w r) then (NothingPlaying, w)
          else
            (let skippedTrack = currentTrack (heap w r);
                 wasLooping = (loopMode (heap w r) = LoopMode_TRACK);
                 w1 = (if wasLooping then modify r (\<lambda>q. q\<lparr>loopMode := LoopMode_OFF\<rparr>) w else w);
                 w2 = player_stop r w1;
                 w3 = (if wasLooping then modify r (\<lambda>q. q\<lparr>loopMode := LoopMode_TRACK\<rparr>) w2 else w2)
             in (case skippedTrack of Some t \<Rightarrow> Skipped t | None \<Rightarrow> CommandError, w3)))"

text \<open>\<open>commandStop\<close> (lines 480-518).\<close>

definition commandStop :: "guildId \<Rightarrow> bool \<Rightarrow> world \<Rightarrow> reply \<times> world" where
  "commandStop g inVoiceChannel w =
     (if \<not> inVoiceChannel then (NotInVoiceChannel, w)
      else case queues w g of
        None \<Rightarrow> (NothingPlaying, w)
      | Some r \<Rightarrow>
          if connection (heap w r) = None then (NothingPlaying, w)
          else
            (let w1 = modify r (\<lambda>q. q\<lparr>queue := [], currentTrack := None, isPlaying := False\<rparr>) w;
                 w2 = player_stop r w1;
                 w3 = modify r (\<lambda>q. q\<lparr>connection := Some Destroyed\<rparr>) w2;
                 w4 = clearIdleTimeout g w3
             in (Stopped, w4\<lparr>queues := (queues w4)(g := None)\<rparr>)))"

text \<open>\<open>commandLoop\<close> (lines 714-738).\<close>

definition commandLoop :: "guildId \<Rightarrow> world \<Rightarrow> reply \<times> world" where
  "commandLoop g w =
     (case queues w g of
        None \<Rightarrow> (NothingPlaying, w)
      | Some r \<Rightarrow>
          if currentTrack (heap w r) = None then (NothingPlaying, w)
          else
            (let w1 = modify r (\<lambda>q. q\<lparr>loopMode := (loopMode q + 1) mod 3\<rparr>) w
             in (LoopModeChanged (loopMode (heap w1 r)), w1)))"

text \<open>A timer of the event loop fires: it leaves the pending list and its callback runs.\<close>

fun runCallback :: "callback \<Rightarrow> world \<Rightarrow> world" where
  "runCallback (IdleExpired g r) w =
     (case connection (heap w r) of
        None \<Rightarrow> w
      | Some c \<Rightarrow>
          (let w1 = modify r (\<lambda>q. q\<lparr>connection := Some Destroyed\<rparr>) w
           in w1\<lparr>queues := (queues w1)(g := None)\<rparr>))"
| "runCallback (PlayNext g) w = playNextTrack g w"

definition fireTimer :: "timerId \<Rightarrow> world \<Rightarrow> world" where
  "fireTimer tid w =
     (case map_of (timers w) tid of
        None \<Rightarrow> w
      | Some (ms, cb) \<Rightarrow> runCallback cb (clearTimeout tid w))"

text \<open>\<open>play.stream\<close> settles for the \<open>n\<close>-th suspended call.\<close>

definition streamSettled :: "nat \<Rightarrow> bool \<Rightarrow> world \<Rightarrow> world" where
  "streamSettled n ok w =
     (if n < length (loading w)
      then playNextTrack_resume ok (loading w ! n)
             (w\<lparr>loading := take n (loading w) @ drop (Suc n) (loading w)\<rparr>)
      else w)"

text \<open>The search of the \<open>n\<close>-th \<open>commandPlay\<close> handler waiting for one settles, and the
  edit of the \<open>n\<close>-th handler waiting for one.\<close>

definition searchSettled :: "nat \<Rightarrow> world \<Rightarrow> world" where
  "searchSettled n w =
     (if n < length (searching w)
      then (case searching w ! n of
              (m, r) \<Rightarrow>
                (case commandPlay_found m r
                        (w\<lparr>searching := take n (searching w) @ drop (Suc n) (searching w)\<rparr>) of
                   (rp, goesOn, w1) \<Rightarrow>
                     if goesOn then w1\<lparr>editing := editing w1 @ [(guild m, r)]\<rparr> else w1))
      else w)"

definition replyEdited :: "nat \<Rightarrow> world \<Rightarrow> world" where
  "replyEdited n w =
     (if n < length (editing w)
      then (case editing w ! n of
              (g, r) \<Rightarrow>
                commandPlay_finish g r
                  (w\<lparr>editing := take n (editing w) @ drop (Suc n) (editing w)\<rparr>))
      else w)"

text \<open>The events the process reacts to, one at a time, and a run of them. \<open>Play\<close> is a
  \<open>%play\<close> handled without interruption; \<open>PlayBegin\<close>, \<open>SearchSettled\<close> and
  \<open>ReplyEdited\<close> are the three parts of one as separate events, between which others may
  be handled.\<close>

datatype event =
    Play playMessage
  | PlayBegin playMessage
  | SearchSettled nat
  | ReplyEdited nat
  | Skip guildId bool
  | Stop guildId bool
  | Loop guildId
  | TimerFired timerId
  | StreamSettled nat bool
  | PlayerIdle ref
  | PlayerError ref

fun step :: "world \<Rightarrow> event \<Rightarrow> world" where
  "step w (Play m) = snd (commandPlay m w)"
| "step w (PlayBegin m) =
     (case commandPlay_begin m w of
        (Inl rp, w1) \<Rightarrow> w1
      | (Inr r, w1) \<Rightarrow> w1\<lparr>searching := searching w1 @ [(m, r)]\<rparr>)"
| "step w (SearchSettled n) = searchSettled n w"
| "step w (ReplyEdited n) = replyEdited n w"
| "step w (Skip g v) = snd (commandSkip g v w)"
| "step w (Stop g v) = snd (commandStop g v w)"
| "step w (Loop g) = snd (commandLoop g w)"
| "step w (TimerFired tid) = fireTimer tid w"
| "step w (StreamSettled n ok) = streamSettled n ok w"
| "step w (PlayerIdle r) = (if status (player (heap w r)) = Idle then w else playerIdle r w)"
| "step w (PlayerError r) = (if status (player (heap w r)) = Idle then w else playerError r w)"

definition run :: "world \<Rightarrow> event list \<Rightarrow> world" where
  "run w es = foldl step w es"

text \<open>The process at start: no queue object, no timer, nothing suspended.\<close>

definition start :: "bool \<Rightarrow> world" where
  "start imm = \<lparr>queues = Map.empty, heap = (\<lambda>r. newSession), nextRef = 0, timers = [],
     nextTimer = 0, loading = [], streamRequests = [], sent = [], immediateStop = imm,
     searching = [], editing = []\<rparr>"

section \<open>Runs of \<open>%play\<close> commands and example data\<close>

text \<open>A \<open>%play\<close> message that passes every guard of \<open>commandPlay\<close> for guild \<open>g\<close>:
  the author is in a voice channel, gave a query, the search found a video, and the bot
  may connect and speak.\<close>

definition accepted :: "guildId \<Rightarrow> playMessage \<Rightarrow> bool" where
  "accepted g m = (guild m = g \<and> inVoice m \<and> args m \<noteq> [] \<and> found m \<noteq> None \<and> permitted m)"

text \<open>The track such a message asks for (none when the search found nothing).\<close>

definition requestedTrack :: "playMessage \<Rightarrow> track option" where
  "requestedTrack m = map_option (\<lambda>v. trackOf v (author m)) (found m)"

text \<open>\<open>%play\<close> commands handled one after the other, nothing else in between.\<close>

fun playAll :: "playMessage list \<Rightarrow> world \<Rightarrow> reply list \<times> world" where
  "playAll [] w = ([], w)"
| "playAll (m # ms) w =
     (let (rp, w1) = commandPlay m w; (rps, w2) = playAll ms w1 in (rp # rps, w2))"

definition songA :: videoInfo where
  "songA = \<lparr>title = ''A'', url = ''https://youtu.be/a'', duration = 180, thumbnail = None\<rparr>"

definition songB :: videoInfo where
  "songB = \<lparr>title = ''B'', url = ''https://youtu.be/b'', duration = 240, thumbnail = None\<rparr>"

definition songC :: videoInfo where
  "songC = \<lparr>title = ''C'', url = ''https://youtu.be/c'', duration = 200, thumbnail = None\<rparr>"

definition request :: "videoInfo \<Rightarrow> playMessage" where
  "request v = \<lparr>guild = ''g'', inVoice = True, args = [title v], found = Some v,
                 permitted = True, author = ''u'', channel = ''c''\<rparr>"

definition bareRequest :: playMessage where
  "bareRequest = \<lparr>guild = ''g'', inVoice = True, args = [], found = None,
                   permitted = True, author = ''u'', channel = ''c''\<rparr>"

definition trackA :: track where
  "trackA = trackOf songA ''u''"

definition trackB :: track where
  "trackB = trackOf songB ''u''"

definition trackC :: track where
  "trackC = trackOf songC ''u''"

text \<open>A world reached from the start: song A is playing in track-loop mode and song B
  waits in the queue.\<close>

definition loopedWorld :: "bool \<Rightarrow> world" where
  "loopedWorld imm =
     run (start imm) [Play (request songA), StreamSettled 0 True, Play (request songB), Loop ''g'']"

text \<open>A world reached from the start: song A is playing, nothing waits.\<close>

definition playingWorld :: world where
  "playingWorld = run (start False) [Play (request songA), StreamSettled 0 True]"

text \<open>A timer that is pending under a handle no other timer can take: the handle was
  given out already, and it is not the idle-timer handle of any queue object (so no
  \<open>clearIdleTimeout\<close> cancels it).\<close>

definition pendingTimer :: "timerId \<Rightarrow> nat \<times> callback \<Rightarrow> world \<Rightarrow> bool" where
  "pendingTimer tid e w =
     (map_of (timers w) tid = Some e \<and> tid < nextTimer w
      \<and> (\<forall>r. idleTimeout (heap w r) \<noteq> Some tid))"

text \<open>A queue object with nothing queued, nothing current and not playing.\<close>

definition cleared :: "ref \<Rightarrow> world \<Rightarrow> bool" where
  "cleared r w =
     (queue (heap w r) = [] \<and> currentTrack (heap w r) = None \<and> \<not> isPlaying (heap w r))"

text \<open>A world reached from the start: the stream of song A failed once, and the retry
  timer of \<open>playNextTrack\<close> is pending.\<close>

definition retryWorld :: world where
  "retryWorld = run (start False) [Play (request songA), StreamSettled 0 False]"

text \<open>More worlds reached from the start. \<open>failingWorld\<close>: A and B were requested and
  the stream of A has just failed. \<open>soloLoopWorld\<close>: A plays in track-loop mode, nothing
  waits. \<open>queueLoopWorld\<close>: A plays, B waits, and the loop mode was then set to QUEUE.
  \<open>idleWorld\<close>: A has finished with nothing waiting. \<open>orphanWorld\<close>: after the failed
  stream of \<open>retryWorld\<close> the session was stopped and the retry timer fired.\<close>

definition failingWorld :: world where
  "failingWorld =
     run (start False) [Play (request songA), Play (request songB), StreamSettled 0 False]"

definition soloLoopWorld :: world where
  "soloLoopWorld = run (start False) [Play (request songA), StreamSettled 0 True, Loop ''g'']"

definition queueLoopWorld :: world where
  "queueLoopWorld =
     run (start False) [Play (request songA), StreamSettled 0 True, Play (request songB),
                        Loop ''g'', Loop ''g'']"

text \<open>From \<open>queueLoopWorld\<close>: the stream of A breaks while it plays (the player emits
  \<open>error\<close> and then goes idle, so both listeners start the advancer), the first of the
  two requests for B succeeds and B plays, its stream breaks as well, and then the three
  requests still open fail one after the other.\<close>

definition gaveUpWorld :: world where
  "gaveUpWorld =
     run queueLoopWorld [PlayerError 0, PlayerIdle 0, StreamSettled 0 True,
       PlayerError 0, PlayerIdle 0,
       StreamSettled 0 False, StreamSettled 0 False, StreamSettled 0 False]"

definition idleWorld :: world where
  "idleWorld = run playingWorld [PlayerIdle 0]"

definition orphanWorld :: world where
  "orphanWorld = run retryWorld [Stop ''g'' True, TimerFired 0]"

text \<open>Two runs in which \<open>%play\<close> handlers are interrupted. \<open>overlapWorld\<close>: A is
  asked for, then B, and the search for B settles first. \<open>droppedWorld\<close>: while A
  plays, B is asked for, and \<open>%stop\<close> is handled before the search for B settles.\<close>

definition overlapWorld :: world where
  "overlapWorld =
     run (start False) [PlayBegin (request songA), PlayBegin (request songB),
       SearchSettled 1, ReplyEdited 0, SearchSettled 0, ReplyEdited 0]"

definition droppedWorld :: world where
  "droppedWorld =
     run playingWorld [PlayBegin (request songB), Stop ''g'' True,
       SearchSettled 0, ReplyEdited 0]"

section \<open>Basic facts\<close>

text \<open>The uninterrupted \<open>%play\<close> handler in one piece.\<close>

lemma commandPlay_unfold:
  "commandPlay m w =
     (let (r, w1) = getQueue (guild m) w in
      if \<not> inVoice m then (NotInVoiceChannel, w1)
      else if args m = [] then (NoSongSpecified, w1)
      else case found m of
        None \<Rightarrow> (NotFound, w1)
      | Some v \<Rightarrow>
          (let tr = trackOf v (author m);
               w2 = modify r (\<lambda>q. q\<lparr>queue := queue q @ [tr],
                                       textChannel := Some (channel m)\<rparr>) w1
           in if connection (heap w2 r) = None \<and> \<not> permitted m then (MissingPermissions, w2)
              else
                (let w3 = (if connection (heap w2 r) = None
                           then modify r (\<lambda>q. q\<lparr>connection := Some Ready,
                                  player := (player q)\<lparr>listeners := Some (guild m)\<rparr>\<rparr>) w2
                           else w2);
                     q = heap w3 r;
                     pos = length (queue q) + (if isPlaying q then 1 else 0)
                 in if isPlaying q then (AddedToQueue pos, w3)
                    else (NowPlaying pos, playNextTrack (guild m) w3))))"
  by (simp add: commandPlay_def commandPlay_begin_def commandPlay_found_def
      commandPlay_finish_def Let_def split_beta split: option.splits)

lemmas model_defs = run_def start_def commandPlay_unfold commandSkip_def commandStop_def
  commandLoop_def playNextTrack_def playNextTrack_resume_def getQueue_def modify_def
  setTimeout_def clearTimeout_def clearIdleTimeout_def setIdleTimeout_def playerIdle_def
  playerError_def player_stop_def fireTimer_def streamSettled_def trackOf_def newSession_def
  LoopMode_OFF_def LoopMode_TRACK_def LoopMode_QUEUE_def MAX_RETRIES_def IDLE_TIMEOUT_def
  Let_def request_def bareRequest_def songA_def songB_def songC_def trackA_def trackB_def
  trackC_def accepted_def requestedTrack_def

lemma modify_nextRef [simp]: "nextRef (modify r f w) = nextRef w"
  by (simp add: modify_def)

lemma modify_heap_same [simp]: "heap (modify r f w) r = f (heap w r)"
  by (simp add: modify_def)

lemma modify_heap_other [simp]: "r' \<noteq> r \<Longrightarrow> heap (modify r f w) r' = heap w r'"
  by (simp add: modify_def)

lemma loopedWorld_facts:
  "queues (loopedWorld imm) ''g'' = Some 0"
  "nextRef (loopedWorld imm) = 1"
  "loopMode (heap (loopedWorld imm) 0) = LoopMode_TRACK"
  "isPlaying (heap (loopedWorld imm) 0)"
  "currentTrack (heap (loopedWorld imm) 0) = Some trackA"
  "queue (heap (loopedWorld imm) 0) = [trackB]"
  by (simp_all add: loopedWorld_def model_defs)

subsection \<open>What the synchronous part of \<open>playNextTrack\<close> leaves alone\<close>

text \<open>An object that is already allocated keeps its loop mode and its connection,
  whichever guild the advancer runs for.\<close>

lemma playNextTrack_loopMode:
  "r < nextRef w \<Longrightarrow> loopMode (heap (playNextTrack g w) r) = loopMode (heap w r)"
  by (auto simp: playNextTrack_def getQueue_def setIdleTimeout_def clearIdleTimeout_def
      modify_def setTimeout_def clearTimeout_def Let_def
      split: option.splits list.splits prod.splits)

lemma playerIdle_loopMode:
  "r < nextRef w \<Longrightarrow> loopMode (heap (playerIdle r' w) r) = loopMode (heap w r)"
  by (auto simp: playerIdle_def Let_def playNextTrack_loopMode modify_def setTimeout_def
      split: option.splits)

lemma player_stop_loopMode:
  "r < nextRef w \<Longrightarrow> loopMode (heap (player_stop r' w) r) = loopMode (heap w r)"
  by (simp add: player_stop_def playerIdle_loopMode)

section \<open>Skip restores the loop mode\<close>

text \<open>
  Claim C9. After \<open>commandSkip\<close> has returned, every queue object that existed before
  the call has the loop mode it had before the call: the command is rejected without a
  change, or it sets the mode to OFF, stops the player and sets it back to TRACK. This
  holds for both behaviours of \<open>player.stop()\<close>; when the Idle listener runs inside the
  call, the advancer it starts does not touch the loop mode either.
\<close>

theorem skip_keeps_loopMode:
  assumes alloc: "r < nextRef w"
  shows "loopMode (heap (snd (commandSkip g v w)) r) = loopMode (heap w r)"
proof (cases "v \<and> (\<exists>r'. queues w g = Some r' \<and> isPlaying (heap w r'))")
  case False
  then show ?thesis
    by (auto simp: commandSkip_def split: option.splits)
next
  case True
  then obtain r' where v: v and r': "queues w g = Some r'" and pl: "isPlaying (heap w r')"
    by blast
  show ?thesis
  proof (cases "loopMode (heap w r') = LoopMode_TRACK")
    case True
    let ?w1 = "modify r' (\<lambda>q. q\<lparr>loopMode := LoopMode_OFF\<rparr>) w"
    have res: "snd (commandSkip g v w) =
        modify r' (\<lambda>q. q\<lparr>loopMode := LoopMode_TRACK\<rparr>) (player_stop r' ?w1)"
      using v r' pl True by (simp add: commandSkip_def Let_def)
    show ?thesis
    proof (cases "r = r'")
      case True
      with res \<open>loopMode (heap w r') = LoopMode_TRACK\<close> show ?thesis by simp
    next
      case False
      have "loopMode (heap (player_stop r' ?w1) r) = loopMode (heap ?w1 r)"
        using alloc by (simp add: player_stop_loopMode)
      with res False show ?thesis by simp
    qed
  next
    case False
    have res: "snd (commandSkip g v w) = player_stop r' w"
      using v r' pl False by (simp add: commandSkip_def Let_def)
    show ?thesis
      using alloc by (simp add: res player_stop_loopMode)
  qed
qed

theorem skip_keeps_loopMode_witness:
  "(0::nat) < nextRef (loopedWorld True)
   \<and> fst (commandSkip ''g'' True (loopedWorld True)) = Skipped trackA
   \<and> loopMode (heap (snd (commandSkip ''g'' True (loopedWorld True))) 0) = LoopMode_TRACK"
  using skip_keeps_loopMode [of 0 "loopedWorld True" "''g''" True]
  by (simp add: loopedWorld_facts) (simp add: loopedWorld_def model_defs)

section \<open>The loop command\<close>

lemma loopMode_update_same: "loopMode q = l \<Longrightarrow> q\<lparr>loopMode := l\<rparr> = q"
  by (cases q) simp

lemma heap_update_same:
  "loopMode (heap w r) = l \<Longrightarrow> w\<lparr>heap := (heap w)(r := (heap w r)\<lparr>loopMode := l\<rparr>)\<rparr> = w"
  by (simp add: loopMode_update_same)

lemma commandLoop_accepted:
  "queues w g = Some r \<Longrightarrow> currentTrack (heap w r) \<noteq> None \<Longrightarrow>
   snd (commandLoop g w) =
     w\<lparr>heap := (heap w)(r := (heap w r)\<lparr>loopMode := (loopMode (heap w r) + 1) mod 3\<rparr>)\<rparr>"
  by (auto simp: commandLoop_def modify_def Let_def)

text \<open>
  Claim C10 as stated fails on the code: \<open>commandLoop\<close> cycles only when the guild has
  a queue object with a current track (lines 718-725). On the idle session of
  \<open>idleWorld\<close> the reply is "Nothing Playing" and the loop mode stays OFF.
\<close>

theorem commandLoop_counterexample:
  "queues idleWorld ''g'' = Some 0
   \<and> loopMode (heap idleWorld 0) = LoopMode_OFF
   \<and> commandLoop ''g'' idleWorld = (NothingPlaying, idleWorld)
   \<and> loopMode (heap (snd (commandLoop ''g'' idleWorld)) 0) \<noteq> LoopMode_TRACK"
  by (simp add: idleWorld_def playingWorld_def model_defs)

text \<open>
  Claim C10, amended. When the guild has a queue object with a current track (and the
  loop mode is one of the three \<open>LoopMode\<close> numbers), \<open>commandLoop\<close> changes only the
  loop mode of that object, OFF to TRACK, TRACK to QUEUE, QUEUE to OFF, and three such
  commands in a row give back the world they started from. When the guild has no queue
  object, or one without a current track, the reply is "Nothing Playing" and the world
  is unchanged.
\<close>

theorem commandLoop_cycles:
  "(\<forall>r. queues w g = Some r \<and> currentTrack (heap w r) \<noteq> None
        \<and> loopMode (heap w r) \<in> {LoopMode_OFF, LoopMode_TRACK, LoopMode_QUEUE} \<longrightarrow>
        snd (commandLoop g w) =
           w\<lparr>heap := (heap w)(r := (heap w r)\<lparr>loopMode :=
              (if loopMode (heap w r) = LoopMode_OFF then LoopMode_TRACK
               else if loopMode (heap w r) = LoopMode_TRACK then LoopMode_QUEUE
               else LoopMode_OFF)\<rparr>)\<rparr>
      \<and> snd (commandLoop g (snd (commandLoop g (snd (commandLoop g w))))) = w)
   \<and> (queues w g = None \<or> (\<exists>r. queues w g = Some r \<and> currentTrack (heap w r) = None) \<longrightarrow>
        commandLoop g w = (NothingPlaying, w))"
proof (intro conjI allI impI)
  fix r
  assume h: "queues w g = Some r \<and> currentTrack (heap w r) \<noteq> None
        \<and> loopMode (heap w r) \<in> {LoopMode_OFF, LoopMode_TRACK, LoopMode_QUEUE}"
  then have g: "queues w g = Some r" and c: "currentTrack (heap w r) \<noteq> None"
    and l: "loopMode (heap w r) \<in> {LoopMode_OFF, LoopMode_TRACK, LoopMode_QUEUE}"
    by simp_all
  have m: "(loopMode (heap w r) + 1) mod 3 =
      (if loopMode (heap w r) = LoopMode_OFF then LoopMode_TRACK
       else if loopMode (heap w r) = LoopMode_TRACK then LoopMode_QUEUE
       else LoopMode_OFF)"
    using l by (auto simp: LoopMode_OFF_def LoopMode_TRACK_def LoopMode_QUEUE_def)
  show "snd (commandLoop g w) =
           w\<lparr>heap := (heap w)(r := (heap w r)\<lparr>loopMode :=
              (if loopMode (heap w r) = LoopMode_OFF then LoopMode_TRACK
               else if loopMode (heap w r) = LoopMode_TRACK then LoopMode_QUEUE
               else LoopMode_OFF)\<rparr>)\<rparr>"
    using commandLoop_accepted [OF g c] m by simp
  let ?w1 = "snd (commandLoop g w)"
  let ?w2 = "snd (commandLoop g ?w1)"
  have w1: "?w1 = w\<lparr>heap := (heap w)(r := (heap w r)\<lparr>loopMode :=
      (loopMode (heap w r) + 1) mod 3\<rparr>)\<rparr>"
    by (rule commandLoop_accepted [OF g c])
  have g1: "queues ?w1 g = Some r" and c1: "currentTrack (heap ?w1 r) \<noteq> None"
    using g c by (simp_all add: w1)
  have w2: "?w2 = w\<lparr>heap := (heap w)(r := (heap w r)\<lparr>loopMode :=
      (loopMode (heap w r) + 2) mod 3\<rparr>)\<rparr>"
    unfolding commandLoop_accepted [OF g1 c1] by (simp add: w1 mod_simps)
  have g2: "queues ?w2 g = Some r" and c2: "currentTrack (heap ?w2 r) \<noteq> None"
    using g c by (simp_all add: w2)
  have "snd (commandLoop g ?w2) =
      w\<lparr>heap := (heap w)(r := (heap w r)\<lparr>loopMode := (loopMode (heap w r) + 3) mod 3\<rparr>)\<rparr>"
    unfolding commandLoop_accepted [OF g2 c2] by (simp add: w2 mod_simps)
  moreover have "(loopMode (heap w r) + 3) mod 3 = loopMode (heap w r)"
    using l by (auto simp: LoopMode_OFF_def LoopMode_TRACK_def LoopMode_QUEUE_def)
  ultimately show "snd (commandLoop g ?w2) = w"
    by (simp add: heap_update_same)
next
  assume "queues w g = None \<or> (\<exists>r. queues w g = Some r \<and> currentTrack (heap w r) = None)"
  then show "commandLoop g w = (NothingPlaying, w)"
    by (auto simp: commandLoop_def)
qed

theorem commandLoop_cycles_witness:
  "queues (loopedWorld False) ''g'' = Some 0
   \<and> currentTrack (heap (loopedWorld False) 0) \<noteq> None
   \<and> loopMode (heap (loopedWorld False) 0) = LoopMode_TRACK
   \<and> loopMode (heap (snd (commandLoop ''g'' (loopedWorld False))) 0) = LoopMode_QUEUE
   \<and> snd (commandLoop ''g'' (snd (commandLoop ''g'' (snd (commandLoop ''g'' (loopedWorld False))))))
       = loopedWorld False
   \<and> queues idleWorld ''g'' = Some 0 \<and> currentTrack (heap idleWorld 0) = None
   \<and> commandLoop ''g'' idleWorld = (NothingPlaying, idleWorld)"
proof -
  let ?w = "loopedWorld False"
  have g: "queues ?w ''g'' = Some 0" and c: "currentTrack (heap ?w 0) \<noteq> None"
    and t: "loopMode (heap ?w 0) = LoopMode_TRACK"
    by (simp_all add: loopedWorld_facts)
  have l: "loopMode (heap ?w 0) \<in> {LoopMode_OFF, LoopMode_TRACK, LoopMode_QUEUE}"
    by (simp add: t)
  from conjunct1 [OF commandLoop_cycles [of ?w "''g''"]] g c l
  have th: "snd (commandLoop ''g'' ?w) =
           ?w\<lparr>heap := (heap ?w)(0 := (heap ?w 0)\<lparr>loopMode :=
              (if loopMode (heap ?w 0) = LoopMode_OFF then LoopMode_TRACK
               else if loopMode (heap ?w 0) = LoopMode_TRACK then LoopMode_QUEUE
               else LoopMode_OFF)\<rparr>)\<rparr>
      \<and> snd (commandLoop ''g'' (snd (commandLoop ''g'' (snd (commandLoop ''g'' ?w))))) = ?w"
    by blast
  have a: "loopMode (heap (snd (commandLoop ''g'' ?w)) 0) = LoopMode_QUEUE"
    by (simp add: conjunct1 [OF th] t LoopMode_OFF_def LoopMode_TRACK_def)
  have i: "queues idleWorld ''g'' = Some 0" "currentTrack (heap idleWorld 0) = None"
    by (simp_all add: idleWorld_def playingWorld_def model_defs)
  from conjunct2 [OF commandLoop_cycles [of idleWorld "''g''"]] i
  have r: "commandLoop ''g'' idleWorld = (NothingPlaying, idleWorld)"
    by blast
  show ?thesis
    using g c t a conjunct2 [OF th] i r by blast
qed

section \<open>Sequences of \<open>%play\<close> commands\<close>

text \<open>The first accepted \<open>%play\<close> for a guild without a queue object, and an accepted
  \<open>%play\<close> while the session is playing.\<close>

lemma commandPlay_first:
  assumes "queues w g = None" and "accepted g m" and "requestedTrack m = Some t"
  shows "fst (commandPlay m w) = NowPlaying 1"
    and "queues (snd (commandPlay m w)) g = Some (nextRef w)"
    and "heap (snd (commandPlay m w)) (nextRef w) =
           newSession\<lparr>currentTrack := Some t, isPlaying := True,
             textChannel := Some (channel m), connection := Some Ready,
             player := \<lparr>status = Idle, listeners = Some g\<rparr>\<rparr>"
    and "streamRequests (snd (commandPlay m w)) = streamRequests w @ [t]"
    and "loading (snd (commandPlay m w)) = loading w @ [(g, nextRef w, t)]"
    and "sent (snd (commandPlay m w)) = sent w"
    and "timers (snd (commandPlay m w)) = timers w"
  using assms
  by (auto simp: commandPlay_unfold accepted_def requestedTrack_def getQueue_def Let_def modify_def
      playNextTrack_def clearIdleTimeout_def newSession_def LoopMode_OFF_def LoopMode_TRACK_def
      LoopMode_QUEUE_def split: option.splits list.splits)

lemma commandPlay_playing:
  assumes "queues w g = Some r" and "isPlaying (heap w r)" and "accepted g m"
    and "requestedTrack m = Some t"
  shows "fst (commandPlay m w) = AddedToQueue (length (queue (heap w r)) + 2)"
    and "queues (snd (commandPlay m w)) = queues w"
    and "queue (heap (snd (commandPlay m w)) r) = queue (heap w r) @ [t]"
    and "isPlaying (heap (snd (commandPlay m w)) r)"
    and "currentTrack (heap (snd (commandPlay m w)) r) = currentTrack (heap w r)"
    and "loopMode (heap (snd (commandPlay m w)) r) = loopMode (heap w r)"
    and "streamRequests (snd (commandPlay m w)) = streamRequests w"
    and "loading (snd (commandPlay m w)) = loading w"
    and "sent (snd (commandPlay m w)) = sent w"
    and "timers (snd (commandPlay m w)) = timers w"
  using assms
  by (auto simp: commandPlay_unfold accepted_def requestedTrack_def getQueue_def Let_def modify_def
      split: option.splits list.splits)

lemma accepted_requestedTrack: "accepted g m \<Longrightarrow> \<exists>t. requestedTrack m = Some t"
  by (auto simp: accepted_def requestedTrack_def)

lemma playAll_Cons:
  "playAll (m # ms) w =
     (fst (commandPlay m w) # fst (playAll ms (snd (commandPlay m w))),
      snd (playAll ms (snd (commandPlay m w))))"
  by (simp add: split_beta Let_def)

lemma upt_shift: "[k ..< k + Suc n] = k # [Suc k ..< Suc k + n]"
  by (subst upt_conv_Cons) simp_all

lemma playAll_playing_replies:
  "queues w g = Some r \<Longrightarrow> isPlaying (heap w r) \<Longrightarrow> list_all (accepted g) ms \<Longrightarrow>
   fst (playAll ms w) =
     map AddedToQueue [length (queue (heap w r)) + 2 ..< length (queue (heap w r)) + 2 + length ms]"
proof (induction ms arbitrary: w)
  case Nil
  then show ?case by simp
next
  case (Cons m ms)
  from Cons.prems have acc: "accepted g m" and rest: "list_all (accepted g) ms"
    by simp_all
  from accepted_requestedTrack [OF acc] obtain t where t: "requestedTrack m = Some t" ..
  let ?w1 = "snd (commandPlay m w)"
  let ?k = "length (queue (heap w r)) + 2"
  note one = commandPlay_playing [OF Cons.prems(1) Cons.prems(2) acc t]
  have q1: "queues ?w1 g = Some r"
    using one(2) Cons.prems(1) by simp
  have len: "length (queue (heap ?w1 r)) + 2 = Suc ?k"
    using one(3) by simp
  have tl: "fst (playAll ms ?w1) = map AddedToQueue [Suc ?k ..< Suc ?k + length ms]"
    using Cons.IH [OF q1 one(4) rest] unfolding len .
  have "fst (playAll (m # ms) w) = AddedToQueue ?k # map AddedToQueue [Suc ?k ..< Suc ?k + length ms]"
    unfolding playAll_Cons fst_conv one(1) tl ..
  also have "\<dots> = map AddedToQueue [?k ..< ?k + Suc (length ms)]"
    unfolding upt_shift list.map ..
  finally show ?case
    unfolding list.size by simp
qed

lemma playAll_playing:
  "queues w g = Some r \<Longrightarrow> isPlaying (heap w r) \<Longrightarrow> list_all (accepted g) ms \<Longrightarrow>
   queues (snd (playAll ms w)) = queues w
   \<and> map Some (queue (heap (snd (playAll ms w)) r)) =
       map Some (queue (heap w r)) @ map requestedTrack ms
   \<and> isPlaying (heap (snd (playAll ms w)) r)
   \<and> currentTrack (heap (snd (playAll ms w)) r) = currentTrack (heap w r)
   \<and> loopMode (heap (snd (playAll ms w)) r) = loopMode (heap w r)
   \<and> streamRequests (snd (playAll ms w)) = streamRequests w
   \<and> loading (snd (playAll ms w)) = loading w
   \<and> sent (snd (playAll ms w)) = sent w"
proof (induction ms arbitrary: w)
  case Nil
  then show ?case by simp
next
  case (Cons m ms)
  from Cons.prems have acc: "accepted g m" and rest: "list_all (accepted g) ms"
    by simp_all
  from accepted_requestedTrack [OF acc] obtain t where t: "requestedTrack m = Some t" ..
  let ?w1 = "snd (commandPlay m w)"
  note one = commandPlay_playing [OF Cons.prems(1) Cons.prems(2) acc t]
  have q1: "queues ?w1 g = Some r"
    using one(2) Cons.prems(1) by simp
  note ih = Cons.IH [OF q1 one(4) rest]
  show ?case
    unfolding playAll_Cons using ih one(2,3,5,6,7,8,9) t by simp
qed

text \<open>The parts of \<open>commandPlay\<close> as events.\<close>

lemmas part_defs = commandPlay_begin_def commandPlay_found_def commandPlay_finish_def
  searchSettled_def replyEdited_def

text \<open>Whatever was handled before it, the second part of \<open>commandPlay\<close> appends the
  track once to the queue object the handler captured, and touches no other object.\<close>

lemma commandPlay_found_appends:
  assumes "found m = Some v"
  shows "queue (heap (snd (snd (commandPlay_found m r w))) r) = queue (heap w r) @ [trackOf v (author m)]"
    and "r' \<noteq> r \<Longrightarrow> heap (snd (snd (commandPlay_found m r w))) r' = heap w r'"
  using assms by (auto simp: commandPlay_found_def Let_def modify_def)

text \<open>An accepted \<open>%play\<close>, not interrupted, on a session that is not playing: the
  track is appended and the advancer runs once.\<close>

lemma commandPlay_idle:
  assumes q: "queues w g = Some r" and n: "\<not> isPlaying (heap w r)" and a: "accepted g m"
    and t: "requestedTrack m = Some t" and x: "queue (heap w r) @ [t] = x # xs"
  shows "fst (commandPlay m w) = NowPlaying (length (queue (heap w r)) + 1)"
    and "queues (snd (commandPlay m w)) = queues w"
    and "isPlaying (heap (snd (commandPlay m w)) r)"
    and "currentTrack (heap (snd (commandPlay m w)) r) =
           (if loopMode (heap w r) = LoopMode_TRACK \<and> currentTrack (heap w r) \<noteq> None
            then currentTrack (heap w r) else Some x)"
    and "queue (heap (snd (commandPlay m w)) r) =
           (if loopMode (heap w r) = LoopMode_TRACK \<and> currentTrack (heap w r) \<noteq> None then x # xs
            else if loopMode (heap w r) = LoopMode_QUEUE then xs @ [x] else xs)"
    and "map Some (streamRequests (snd (commandPlay m w))) =
           map Some (streamRequests w) @
           [if loopMode (heap w r) = LoopMode_TRACK \<and> currentTrack (heap w r) \<noteq> None
            then currentTrack (heap w r) else Some x]"
    and "length (loading (snd (commandPlay m w))) = Suc (length (loading w))"
    and "sent (snd (commandPlay m w)) = sent w"
  using assms
  by (auto simp: commandPlay_unfold accepted_def requestedTrack_def getQueue_def Let_def modify_def
      playNextTrack_def clearIdleTimeout_def clearTimeout_def
      split: option.splits list.splits)

text \<open>
  Claim C5 as stated fails on the code, because nothing keeps the handlers of one guild
  apart. In \<open>overlapWorld\<close> A was asked for before B, the search for B settled first,
  and B is the current track with A pending behind it. In \<open>droppedWorld\<close> the accepted
  request for B was answered "Now Playing", but \<open>%stop\<close> had removed the queue object
  the handler holds: B went into that object, the guild's new session has nothing
  pending and nothing current, and no stream was requested for B.
\<close>

theorem enqueue_counterexample:
  "currentTrack (heap overlapWorld 0) = Some trackB
   \<and> queue (heap overlapWorld 0) = [trackA]
   \<and> streamRequests overlapWorld = [trackB]
   \<and> searching overlapWorld = [] \<and> editing overlapWorld = []
   \<and> accepted ''g'' (request songB)
   \<and> fst (commandPlay_found (request songB) 0
        (run playingWorld [PlayBegin (request songB), Stop ''g'' True])) = NowPlaying 1
   \<and> queues droppedWorld ''g'' = Some 1
   \<and> queue (heap droppedWorld 1) = []
   \<and> currentTrack (heap droppedWorld 1) = None
   \<and> streamRequests droppedWorld = [trackA]
   \<and> searching droppedWorld = [] \<and> editing droppedWorld = []
   \<and> queue (heap droppedWorld 0) = [trackB]"
  by (simp add: overlapWorld_def droppedWorld_def playingWorld_def part_defs model_defs)

text \<open>
  Claim C5, amended. Every \<open>%play\<close> that passes the guards of \<open>commandPlay\<close> (author in
  a voice channel, a query, a search result, voice permissions) appends its track exactly
  once to the pending queue of the queue object its handler got at its start, and to no
  other, whatever is handled while it waits. For such commands handled one after the
  other, each without interruption: on a guild without a queue object the replies are one
  "Now Playing" and then "Added to Queue" with rising positions, the first requested
  track is current and the only one a stream was requested for, and the others are
  pending in call order; on a session that is not playing the first command appends its
  track and starts the advancer once (one "Now Playing", one stream request, for the
  head of the pending queue, or for the current track under track loop) and the others
  are appended behind in call order; on a session that is playing every reply is
  "Added to Queue", the pending queue grows by the requested tracks in call order, and
  no stream is requested.
\<close>

theorem enqueue_sequence:
  assumes acc: "list_all (accepted g) (m # ms)"
  shows "(\<forall>r. map Some (queue (heap (snd (snd (commandPlay_found m r w))) r)) =
               map Some (queue (heap w r)) @ [requestedTrack m]
            \<and> (\<forall>r'. r' \<noteq> r \<longrightarrow> heap (snd (snd (commandPlay_found m r w))) r' = heap w r'))
     \<and> (queues w g = None \<longrightarrow>
           fst (playAll (m # ms) w) = NowPlaying 1 # map AddedToQueue [2 ..< 2 + length ms]
         \<and> queues (snd (playAll (m # ms) w)) g = Some (nextRef w)
         \<and> map Some (queue (heap (snd (playAll (m # ms) w)) (nextRef w))) = map requestedTrack ms
         \<and> isPlaying (heap (snd (playAll (m # ms) w)) (nextRef w))
         \<and> (\<exists>t. requestedTrack m = Some t
              \<and> currentTrack (heap (snd (playAll (m # ms) w)) (nextRef w)) = Some t
              \<and> streamRequests (snd (playAll (m # ms) w)) = streamRequests w @ [t]
              \<and> loading (snd (playAll (m # ms) w)) = loading w @ [(g, nextRef w, t)]))
     \<and> (\<forall>r. queues w g = Some r \<and> \<not> isPlaying (heap w r) \<longrightarrow>
           (\<exists>t x xs. requestedTrack m = Some t \<and> queue (heap w r) @ [t] = x # xs
              \<and> fst (playAll (m # ms) w) =
                  NowPlaying (length (queue (heap w r)) + 1) #
                  map AddedToQueue
                    [length (if loopMode (heap w r) = LoopMode_TRACK \<and> currentTrack (heap w r) \<noteq> None
                             then x # xs
                             else if loopMode (heap w r) = LoopMode_QUEUE then xs @ [x] else xs) + 2 ..<
                     length (if loopMode (heap w r) = LoopMode_TRACK \<and> currentTrack (heap w r) \<noteq> None
                             then x # xs
                             else if loopMode (heap w r) = LoopMode_QUEUE then xs @ [x] else xs) + 2
                       + length ms]
              \<and> queues (snd (playAll (m # ms) w)) g = Some r
              \<and> currentTrack (heap (snd (playAll (m # ms) w)) r) =
                  (if loopMode (heap w r) = LoopMode_TRACK \<and> currentTrack (heap w r) \<noteq> None
                   then currentTrack (heap w r) else Some x)
              \<and> map Some (queue (heap (snd (playAll (m # ms) w)) r)) =
                  map Some (if loopMode (heap w r) = LoopMode_TRACK \<and> currentTrack (heap w r) \<noteq> None
                            then x # xs
                            else if loopMode (heap w r) = LoopMode_QUEUE then xs @ [x] else xs)
                  @ map requestedTrack ms
              \<and> map Some (streamRequests (snd (playAll (m # ms) w))) =
                  map Some (streamRequests w) @
                  [if loopMode (heap w r) = LoopMode_TRACK \<and> currentTrack (heap w r) \<noteq> None
                   then currentTrack (heap w r) else Some x]
              \<and> length (loading (snd (playAll (m # ms) w))) = Suc (length (loading w))))
     \<and> (\<forall>r. queues w g = Some r \<and> isPlaying (heap w r) \<longrightarrow>
           fst (playAll (m # ms) w) =
             map AddedToQueue [length (queue (heap w r)) + 2 ..<
                               length (queue (heap w r)) + 2 + length (m # ms)]
         \<and> queues (snd (playAll (m # ms) w)) g = Some r
         \<and> map Some (queue (heap (snd (playAll (m # ms) w)) r)) =
             map Some (queue (heap w r)) @ map requestedTrack (m # ms)
         \<and> currentTrack (heap (snd (playAll (m # ms) w)) r) = currentTrack (heap w r)
         \<and> streamRequests (snd (playAll (m # ms) w)) = streamRequests w
         \<and> loading (snd (playAll (m # ms) w)) = loading w)"
proof -
  from acc have a: "accepted g m" and rest: "list_all (accepted g) ms"
    by simp_all
  from accepted_requestedTrack [OF a] obtain t where t: "requestedTrack m = Some t" ..
  then obtain v where v: "found m = Some v" and tv: "t = trackOf v (author m)"
    by (auto simp: requestedTrack_def)
  have part0: "\<forall>r. map Some (queue (heap (snd (snd (commandPlay_found m r w))) r)) =
               map Some (queue (heap w r)) @ [requestedTrack m]
            \<and> (\<forall>r'. r' \<noteq> r \<longrightarrow> heap (snd (snd (commandPlay_found m r w))) r' = heap w r')"
    using commandPlay_found_appends [OF v] t tv by simp
  have part1: "queues w g = None \<longrightarrow>
           fst (playAll (m # ms) w) = NowPlaying 1 # map AddedToQueue [2 ..< 2 + length ms]
         \<and> queues (snd (playAll (m # ms) w)) g = Some (nextRef w)
         \<and> map Some (queue (heap (snd (playAll (m # ms) w)) (nextRef w))) = map requestedTrack ms
         \<and> isPlaying (heap (snd (playAll (m # ms) w)) (nextRef w))
         \<and> (\<exists>t. requestedTrack m = Some t
              \<and> currentTrack (heap (snd (playAll (m # ms) w)) (nextRef w)) = Some t
              \<and> streamRequests (snd (playAll (m # ms) w)) = streamRequests w @ [t]
              \<and> loading (snd (playAll (m # ms) w)) = loading w @ [(g, nextRef w, t)])"
  proof (intro impI conjI)
    assume absent: "queues w g = None"
    let ?r = "nextRef w"
    let ?w1 = "snd (commandPlay m w)"
    note one = commandPlay_first [OF absent a t]
    have pl: "isPlaying (heap ?w1 ?r)" and q: "queue (heap ?w1 ?r) = []"
      and cur: "currentTrack (heap ?w1 ?r) = Some t"
      by (simp_all add: one(3) newSession_def)
    note more = playAll_playing [OF one(2) pl rest]
    have reps: "fst (playAll ms ?w1) = map AddedToQueue [2 ..< 2 + length ms]"
      using playAll_playing_replies [OF one(2) pl rest] unfolding q list.size add_0 .
    show "fst (playAll (m # ms) w) = NowPlaying 1 # map AddedToQueue [2 ..< 2 + length ms]"
      unfolding playAll_Cons fst_conv one(1) reps ..
    show "queues (snd (playAll (m # ms) w)) g = Some (nextRef w)"
      unfolding playAll_Cons using one(2) more by simp
    show "map Some (queue (heap (snd (playAll (m # ms) w)) (nextRef w))) = map requestedTrack ms"
      unfolding playAll_Cons using more q by simp
    show "isPlaying (heap (snd (playAll (m # ms) w)) (nextRef w))"
      unfolding playAll_Cons using more by simp
    show "\<exists>t. requestedTrack m = Some t
        \<and> currentTrack (heap (snd (playAll (m # ms) w)) (nextRef w)) = Some t
        \<and> streamRequests (snd (playAll (m # ms) w)) = streamRequests w @ [t]
        \<and> loading (snd (playAll (m # ms) w)) = loading w @ [(g, nextRef w, t)]"
      unfolding playAll_Cons using one(4,5) more cur t by simp
  qed
  have part2: "\<forall>r. queues w g = Some r \<and> \<not> isPlaying (heap w r) \<longrightarrow>
           (\<exists>t x xs. requestedTrack m = Some t \<and> queue (heap w r) @ [t] = x # xs
              \<and> fst (playAll (m # ms) w) =
                  NowPlaying (length (queue (heap w r)) + 1) #
                  map AddedToQueue
                    [length (if loopMode (heap w r) = LoopMode_TRACK \<and> currentTrack (heap w r) \<noteq> None
                             then x # xs
                             else if loopMode (heap w r) = LoopMode_QUEUE then xs @ [x] else xs) + 2 ..<
                     length (if loopMode (heap w r) = LoopMode_TRACK \<and> currentTrack (heap w r) \<noteq> None
                             then x # xs
                             else if loopMode (heap w r) = LoopMode_QUEUE then xs @ [x] else xs) + 2
                       + length ms]
              \<and> queues (snd (playAll (m # ms) w)) g = Some r
              \<and> currentTrack (heap (snd (playAll (m # ms) w)) r) =
                  (if loopMode (heap w r) = LoopMode_TRACK \<and> currentTrack (heap w r) \<noteq> None
                   then currentTrack (heap w r) else Some x)
              \<and> map Some (queue (heap (snd (playAll (m # ms) w)) r)) =
                  map Some (if loopMode (heap w r) = LoopMode_TRACK \<and> currentTrack (heap w r) \<noteq> None
                            then x # xs
                            else if loopMode (heap w r) = LoopMode_QUEUE then xs @ [x] else xs)
                  @ map requestedTrack ms
              \<and> map Some (streamRequests (snd (playAll (m # ms) w))) =
                  map Some (streamRequests w) @
                  [if loopMode (heap w r) = LoopMode_TRACK \<and> currentTrack (heap w r) \<noteq> None
                   then currentTrack (heap w r) else Some x]
              \<and> length (loading (snd (playAll (m # ms) w))) = Suc (length (loading w)))"
  proof (intro allI impI)
    fix r
    assume h: "queues w g = Some r \<and> \<not> isPlaying (heap w r)"
    then have q: "queues w g = Some r" and n: "\<not> isPlaying (heap w r)"
      by simp_all
    obtain x xs where x: "queue (heap w r) @ [t] = x # xs"
      by (cases "queue (heap w r) @ [t]") simp_all
    let ?w1 = "snd (commandPlay m w)"
    let ?q1 = "if loopMode (heap w r) = LoopMode_TRACK \<and> currentTrack (heap w r) \<noteq> None
               then x # xs
               else if loopMode (heap w r) = LoopMode_QUEUE then xs @ [x] else xs"
    note one = commandPlay_idle [OF q n a t x]
    have q1: "queues ?w1 g = Some r"
      using one(2) q by simp
    note more = playAll_playing [OF q1 one(3) rest]
    have reps: "fst (playAll ms ?w1) = map AddedToQueue [length ?q1 + 2 ..< length ?q1 + 2 + length ms]"
      using playAll_playing_replies [OF q1 one(3) rest] unfolding one(5) .
    have c1: "fst (playAll (m # ms) w) =
        NowPlaying (length (queue (heap w r)) + 1) #
        map AddedToQueue [length ?q1 + 2 ..< length ?q1 + 2 + length ms]"
      unfolding playAll_Cons fst_conv one(1) reps ..
    have c2: "queues (snd (playAll (m # ms) w)) g = Some r"
      unfolding playAll_Cons using q1 more by simp
    have c3: "currentTrack (heap (snd (playAll (m # ms) w)) r) =
        (if loopMode (heap w r) = LoopMode_TRACK \<and> currentTrack (heap w r) \<noteq> None
         then currentTrack (heap w r) else Some x)"
      unfolding playAll_Cons using more one(4) by simp
    have c4: "map Some (queue (heap (snd (playAll (m # ms) w)) r)) = map Some ?q1 @ map requestedTrack ms"
      unfolding playAll_Cons using more one(5) by simp
    have c5: "map Some (streamRequests (snd (playAll (m # ms) w))) =
        map Some (streamRequests w) @
        [if loopMode (heap w r) = LoopMode_TRACK \<and> currentTrack (heap w r) \<noteq> None
         then currentTrack (heap w r) else Some x]"
      unfolding playAll_Cons using more one(6) by simp
    have c6: "length (loading (snd (playAll (m # ms) w))) = Suc (length (loading w))"
      unfolding playAll_Cons using more one(7) by simp
    show "\<exists>t x xs. requestedTrack m = Some t \<and> queue (heap w r) @ [t] = x # xs
              \<and> fst (playAll (m # ms) w) =
                  NowPlaying (length (queue (heap w r)) + 1) #
                  map AddedToQueue
                    [length (if loopMode (heap w r) = LoopMode_TRACK \<and> currentTrack (heap w r) \<noteq> None
                             then x # xs
                             else if loopMode (heap w r) = LoopMode_QUEUE then xs @ [x] else xs) + 2 ..<
                     length (if loopMode (heap w r) = LoopMode_TRACK \<and> currentTrack (heap w r) \<noteq> None
                             then x # xs
                             else if loopMode (heap w r) = LoopMode_QUEUE then xs @ [x] else xs) + 2
                       + length ms]
              \<and> queues (snd (playAll (m # ms) w)) g = Some r
              \<and> currentTrack (heap (snd (playAll (m # ms) w)) r) =
                  (if loopMode (heap w r) = LoopMode_TRACK \<and> currentTrack (heap w r) \<noteq> None
                   then currentTrack (heap w r) else Some x)
              \<and> map Some (queue (heap (snd (playAll (m # ms) w)) r)) =
                  map Some (if loopMode (heap w r) = LoopMode_TRACK \<and> currentTrack (heap w r) \<noteq> None
                            then x # xs
                            else if loopMode (heap w r) = LoopMode_QUEUE then xs @ [x] else xs)
                  @ map requestedTrack ms
              \<and> map Some (streamRequests (snd (playAll (m # ms) w))) =
                  map Some (streamRequests w) @
                  [if loopMode (heap w r) = LoopMode_TRACK \<and> currentTrack (heap w r) \<noteq> None
                   then currentTrack (heap w r) else Some x]
              \<and> length (loading (snd (playAll (m # ms) w))) = Suc (length (loading w))"
      using t x c1 c2 c3 c4 c5 c6 by blast
  qed
  have part3: "\<forall>r. queues w g = Some r \<and> isPlaying (heap w r) \<longrightarrow>
           fst (playAll (m # ms) w) =
             map AddedToQueue [length (queue (heap w r)) + 2 ..<
                               length (queue (heap w r)) + 2 + length (m # ms)]
         \<and> queues (snd (playAll (m # ms) w)) g = Some r
         \<and> map Some (queue (heap (snd (playAll (m # ms) w)) r)) =
             map Some (queue (heap w r)) @ map requestedTrack (m # ms)
         \<and> currentTrack (heap (snd (playAll (m # ms) w)) r) = currentTrack (heap w r)
         \<and> streamRequests (snd (playAll (m # ms) w)) = streamRequests w
         \<and> loading (snd (playAll (m # ms) w)) = loading w"
  proof (intro allI impI)
    fix r
    assume h: "queues w g = Some r \<and> isPlaying (heap w r)"
    then have q: "queues w g = Some r" and pl: "isPlaying (heap w r)"
      by simp_all
    note more = playAll_playing [OF q pl acc]
    have "queues (snd (playAll (m # ms) w)) g = Some r"
      using more q by simp
    then show "fst (playAll (m # ms) w) =
             map AddedToQueue [length (queue (heap w r)) + 2 ..<
                               length (queue (heap w r)) + 2 + length (m # ms)]
         \<and> queues (snd (playAll (m # ms) w)) g = Some r
         \<and> map Some (queue (heap (snd (playAll (m # ms) w)) r)) =
             map Some (queue (heap w r)) @ map requestedTrack (m # ms)
         \<and> currentTrack (heap (snd (playAll (m # ms) w)) r) = currentTrack (heap w r)
         \<and> streamRequests (snd (playAll (m # ms) w)) = streamRequests w
         \<and> loading (snd (playAll (m # ms) w)) = loading w"
      using playAll_playing_replies [OF q pl acc] more by blast
  qed
  show ?thesis
    using part0 part1 part2 part3 by (intro conjI)
qed

lemma map_Some_eq: "map Some xs = map Some ys \<Longrightarrow> xs = ys"
  by (simp only: inj_map_eq_map [OF inj_Some])

lemma playingWorld_facts:
  "queues playingWorld ''g'' = Some 0"
  "isPlaying (heap playingWorld 0)"
  "queue (heap playingWorld 0) = []"
  "currentTrack (heap playingWorld 0) = Some trackA"
  "streamRequests playingWorld = [trackA]"
  by (simp_all add: playingWorld_def model_defs)

lemma requested_tracks:
  "requestedTrack (request songA) = Some trackA"
  "requestedTrack (request songB) = Some trackB"
  "requestedTrack (request songC) = Some trackC"
  by (simp_all add: requestedTrack_def request_def trackA_def trackB_def trackC_def)

lemma idleWorld_session:
  "queue (heap idleWorld 0) = []" "loopMode (heap idleWorld 0) = LoopMode_OFF"
  "currentTrack (heap idleWorld 0) = None" "streamRequests idleWorld = [trackA]"
  by (simp_all add: idleWorld_def playingWorld_def model_defs)

theorem enqueue_sequence_witness:
  "list_all (accepted ''g'') [request songA, request songB, request songC]
   \<and> queues (start False) ''g'' = None
   \<and> fst (playAll [request songA, request songB, request songC] (start False)) =
       [NowPlaying 1, AddedToQueue 2, AddedToQueue 3]
   \<and> queue (heap (snd (playAll [request songA, request songB, request songC] (start False))) 0) =
       [trackB, trackC]
   \<and> currentTrack (heap (snd (playAll [request songA, request songB, request songC] (start False))) 0) =
       Some trackA
   \<and> streamRequests (snd (playAll [request songA, request songB, request songC] (start False))) =
       [trackA]
   \<and> list_all (accepted ''g'') [request songB, request songC]
   \<and> queues playingWorld ''g'' = Some 0 \<and> isPlaying (heap playingWorld 0)
   \<and> fst (playAll [request songB, request songC] playingWorld) = [AddedToQueue 2, AddedToQueue 3]
   \<and> queue (heap (snd (playAll [request songB, request songC] playingWorld)) 0) = [trackB, trackC]
   \<and> streamRequests (snd (playAll [request songB, request songC] playingWorld)) = [trackA]
   \<and> queues idleWorld ''g'' = Some 0 \<and> \<not> isPlaying (heap idleWorld 0)
   \<and> fst (playAll [request songB, request songC] idleWorld) = [NowPlaying 1, AddedToQueue 2]
   \<and> currentTrack (heap (snd (playAll [request songB, request songC] idleWorld)) 0) = Some trackB
   \<and> queue (heap (snd (playAll [request songB, request songC] idleWorld)) 0) = [trackC]
   \<and> streamRequests (snd (playAll [request songB, request songC] idleWorld)) = [trackA, trackB]
   \<and> queue (heap (snd (snd (commandPlay_found (request songB) 0 playingWorld))) 0) = [trackB]"
proof -
  let ?abc = "[request songA, request songB, request songC]"
  let ?bc = "[request songB, request songC]"
  have a: "queues (start False) ''g'' = None"
    by (simp add: start_def)
  have b: "list_all (accepted ''g'') ?abc" and b': "list_all (accepted ''g'') ?bc"
    by (simp_all add: accepted_def request_def)
  have n: "nextRef (start False) = 0" "streamRequests (start False) = []"
    by (simp_all add: start_def)
  have u: "[2 ..< 2 + length ?bc] = [2, 3]" "[0 + 2 ..< 0 + 2 + length ?bc] = [2, 3]"
    "[0 + 2 ..< 0 + 2 + length [request songC]] = [2]"
    by (simp_all add: upt_rec)
  have i: "queues idleWorld ''g'' = Some 0" "\<not> isPlaying (heap idleWorld 0)"
    by (simp_all add: idleWorld_def playingWorld_def model_defs)
  note th1 = enqueue_sequence [OF b, of "start False"]
  note th2 = enqueue_sequence [OF b', of playingWorld]
  note th3 = enqueue_sequence [OF b', of idleWorld]
  from conjunct1 [OF conjunct2 [OF th1]] a
  have 1: "fst (playAll ?abc (start False)) = [NowPlaying 1, AddedToQueue 2, AddedToQueue 3]
    \<and> map Some (queue (heap (snd (playAll ?abc (start False))) 0)) = map Some [trackB, trackC]
    \<and> currentTrack (heap (snd (playAll ?abc (start False))) 0) = Some trackA
    \<and> streamRequests (snd (playAll ?abc (start False))) = [trackA]"
    unfolding n u requested_tracks list.map by auto
  from conjunct2 [OF conjunct2 [OF conjunct2 [OF th2]]] playingWorld_facts
  have 2: "fst (playAll ?bc playingWorld) = [AddedToQueue 2, AddedToQueue 3]
    \<and> map Some (queue (heap (snd (playAll ?bc playingWorld)) 0)) = map Some [trackB, trackC]
    \<and> streamRequests (snd (playAll ?bc playingWorld)) = [trackA]"
    unfolding requested_tracks list.map list.size u by auto
  from conjunct1 [OF conjunct2 [OF conjunct2 [OF th3]]] i
  obtain t x xs where k: "requestedTrack (request songB) = Some t"
      "queue (heap idleWorld 0) @ [t] = x # xs"
    and f: "fst (playAll ?bc idleWorld) =
        NowPlaying (length (queue (heap idleWorld 0)) + 1) #
        map AddedToQueue
          [length (if loopMode (heap idleWorld 0) = LoopMode_TRACK \<and> currentTrack (heap idleWorld 0) \<noteq> None
                   then x # xs
                   else if loopMode (heap idleWorld 0) = LoopMode_QUEUE then xs @ [x] else xs) + 2 ..<
           length (if loopMode (heap idleWorld 0) = LoopMode_TRACK \<and> currentTrack (heap idleWorld 0) \<noteq> None
                   then x # xs
                   else if loopMode (heap idleWorld 0) = LoopMode_QUEUE then xs @ [x] else xs) + 2
             + length [request songC]]"
    and c: "currentTrack (heap (snd (playAll ?bc idleWorld)) 0) =
        (if loopMode (heap idleWorld 0) = LoopMode_TRACK \<and> currentTrack (heap idleWorld 0) \<noteq> None
         then currentTrack (heap idleWorld 0) else Some x)"
    and p: "map Some (queue (heap (snd (playAll ?bc idleWorld)) 0)) =
        map Some (if loopMode (heap idleWorld 0) = LoopMode_TRACK \<and> currentTrack (heap idleWorld 0) \<noteq> None
                  then x # xs
                  else if loopMode (heap idleWorld 0) = LoopMode_QUEUE then xs @ [x] else xs)
        @ map requestedTrack [request songC]"
    and sr: "map Some (streamRequests (snd (playAll ?bc idleWorld))) =
        map Some (streamRequests idleWorld) @
        [if loopMode (heap idleWorld 0) = LoopMode_TRACK \<and> currentTrack (heap idleWorld 0) \<noteq> None
         then currentTrack (heap idleWorld 0) else Some x]"
    by blast
  from k have x: "x = trackB" "xs = []"
    by (simp_all add: requested_tracks idleWorld_session)
  have m: "LoopMode_OFF \<noteq> LoopMode_QUEUE"
    by (simp add: LoopMode_OFF_def LoopMode_QUEUE_def)
  have 3: "fst (playAll ?bc idleWorld) = [NowPlaying 1, AddedToQueue 2]
    \<and> currentTrack (heap (snd (playAll ?bc idleWorld)) 0) = Some trackB
    \<and> map Some (queue (heap (snd (playAll ?bc idleWorld)) 0)) = map Some [trackC]
    \<and> map Some (streamRequests (snd (playAll ?bc idleWorld))) = map Some [trackA, trackB]"
    using f c p sr unfolding x idleWorld_session
    by (simp add: m u requested_tracks del: playAll.simps)
  from conjunct1 [OF th2]
  have 4: "map Some (queue (heap (snd (snd (commandPlay_found (request songB) 0 playingWorld))) 0))
      = map Some [trackB]"
    by (simp add: playingWorld_facts requested_tracks)
  show ?thesis
    using a b b' 1 2 3 4 i playingWorld_facts(1,2) by (auto dest: map_Some_eq)
qed

section \<open>Timers and stop\<close>

text \<open>A pending timer survives everything but its own firing and a
  \<open>clearTimeout\<close> of its handle.\<close>

lemma map_of_filter_other:
  "tid' \<noteq> tid \<Longrightarrow> map_of (filter (\<lambda>e. fst e \<noteq> tid') xs) tid = map_of xs tid"
  by (induction xs) auto

lemma map_of_snoc_found:
  "map_of xs tid = Some e \<Longrightarrow> map_of (xs @ [y]) tid = Some e"
  by (simp add: map_add_def)

lemma pendingTimer_idle_handle:
  "pendingTimer tid e w \<Longrightarrow> idleTimeout (heap w r) = Some t \<Longrightarrow> t \<noteq> tid"
  by (auto simp: pendingTimer_def)

lemma pendingTimer_fresh: "pendingTimer tid e w \<Longrightarrow> nextTimer w \<noteq> tid"
  by (auto simp: pendingTimer_def)

lemma pendingTimer_modify:
  "pendingTimer tid e w \<Longrightarrow> idleTimeout (f (heap w r)) \<noteq> Some tid \<Longrightarrow>
   pendingTimer tid e (modify r f w)"
  by (simp add: pendingTimer_def modify_def)

lemma pendingTimer_setTimeout:
  "pendingTimer tid e w \<Longrightarrow> pendingTimer tid e (snd (setTimeout cb ms w))"
  by (simp add: pendingTimer_def setTimeout_def map_of_snoc_found)

lemma pendingTimer_clearTimeout:
  "pendingTimer tid e w \<Longrightarrow> tid' \<noteq> tid \<Longrightarrow> pendingTimer tid e (clearTimeout tid' w)"
  by (simp add: pendingTimer_def clearTimeout_def map_of_filter_other)

lemma pendingTimer_clearIdleTimeout:
  assumes p: "pendingTimer tid e w"
  shows "pendingTimer tid e (clearIdleTimeout g w)"
proof (cases "queues w g")
  case None
  with p show ?thesis by (simp add: clearIdleTimeout_def)
next
  case (Some r)
  show ?thesis
  proof (cases "idleTimeout (heap w r)")
    case None
    with p Some show ?thesis by (simp add: clearIdleTimeout_def)
  next
    case (Some t)
    have "pendingTimer tid e (clearTimeout t w)"
      using p pendingTimer_idle_handle [OF p Some] by (rule pendingTimer_clearTimeout)
    then have "pendingTimer tid e (modify r (\<lambda>q. q\<lparr>idleTimeout := None\<rparr>) (clearTimeout t w))"
      by (rule pendingTimer_modify) simp
    with Some \<open>queues w g = Some r\<close> show ?thesis
      by (simp add: clearIdleTimeout_def)
  qed
qed

lemma setTimeout_fst [simp]: "fst (setTimeout cb ms w) = nextTimer w"
  by (simp add: setTimeout_def)

lemma pendingTimer_setIdleTimeout:
  assumes p: "pendingTimer tid e w"
  shows "pendingTimer tid e (setIdleTimeout g w)"
proof -
  let ?w1 = "clearIdleTimeout g w"
  have p1: "pendingTimer tid e ?w1"
    using p by (rule pendingTimer_clearIdleTimeout)
  show ?thesis
  proof (cases "queues ?w1 g")
    case None
    with p1 show ?thesis by (simp add: setIdleTimeout_def)
  next
    case (Some r)
    let ?w2 = "snd (setTimeout (IdleExpired g r) IDLE_TIMEOUT ?w1)"
    have "pendingTimer tid e ?w2"
      using p1 by (rule pendingTimer_setTimeout)
    then have "pendingTimer tid e (modify r (\<lambda>q. q\<lparr>idleTimeout := Some (nextTimer ?w1)\<rparr>) ?w2)"
      using pendingTimer_fresh [OF p1] by (intro pendingTimer_modify) simp_all
    with Some show ?thesis
      by (simp add: setIdleTimeout_def Let_def split_beta)
  qed
qed

lemma pendingTimer_getQueue:
  "pendingTimer tid e w \<Longrightarrow> pendingTimer tid e (snd (getQueue g w))"
  by (auto simp: pendingTimer_def getQueue_def newSession_def split: option.splits)

lemma pendingTimer_fields:
  "pendingTimer tid e w \<Longrightarrow>
   pendingTimer tid e (w\<lparr>loading := l, streamRequests := s\<rparr>)"
  by (simp add: pendingTimer_def)

lemma pendingTimer_playNextTrack:
  assumes p: "pendingTimer tid e w"
  shows "pendingTimer tid e (playNextTrack g w)"
proof -
  obtain r w1 where gq: "getQueue g w = (r, w1)"
    by (cases "getQueue g w")
  have p1: "pendingTimer tid e w1"
    using pendingTimer_getQueue [OF p, of g] gq by simp
  show ?thesis
  proof (cases "queue (heap w1 r)")
    case Nil
    have "pendingTimer tid e (modify r (\<lambda>q. q\<lparr>currentTrack := None, isPlaying := False\<rparr>) w1)"
      using p1 by (rule pendingTimer_modify) (use p1 in \<open>simp add: pendingTimer_def\<close>)
    then show ?thesis
      using gq Nil by (simp add: playNextTrack_def pendingTimer_setIdleTimeout)
  next
    case (Cons x xs)
    let ?w2 = "clearIdleTimeout g w1"
    have p2: "pendingTimer tid e ?w2"
      using p1 by (rule pendingTimer_clearIdleTimeout)
    have k: "\<And>f w'. pendingTimer tid e w' \<Longrightarrow> idleTimeout (f (heap w' r)) = idleTimeout (heap w' r)
       \<Longrightarrow> pendingTimer tid e (modify r f w')"
      by (rule pendingTimer_modify) (auto simp: pendingTimer_def)
    show ?thesis
      using gq Cons p2
      by (auto simp: playNextTrack_def Let_def split: option.splits
          intro!: pendingTimer_fields k)
  qed
qed

lemma pendingTimer_playerIdle:
  assumes p: "pendingTimer tid e w"
  shows "pendingTimer tid e (playerIdle r w)"
proof -
  have "pendingTimer tid e (modify r (\<lambda>q. q\<lparr>player := (player q)\<lparr>status := Idle\<rparr>\<rparr>) w)"
    using p by (rule pendingTimer_modify) (use p in \<open>simp add: pendingTimer_def\<close>)
  then show ?thesis
    by (auto simp: playerIdle_def Let_def pendingTimer_playNextTrack
        pendingTimer_setTimeout split: option.splits)
qed

lemma pendingTimer_player_stop:
  "pendingTimer tid e w \<Longrightarrow> pendingTimer tid e (player_stop r w)"
  by (simp add: player_stop_def pendingTimer_playerIdle)


text \<open>An object with nothing queued, nothing current and not playing stays so when the
  advancer runs for any guild.\<close>

lemma cleared_playNextTrack:
  "cleared r w \<Longrightarrow> cleared r (playNextTrack g w)"
  by (auto simp: cleared_def playNextTrack_def getQueue_def setIdleTimeout_def clearIdleTimeout_def
      modify_def setTimeout_def clearTimeout_def Let_def newSession_def
      split: option.splits list.splits prod.splits)

lemma cleared_playerIdle: "cleared r w \<Longrightarrow> cleared r (playerIdle r' w)"
proof -
  assume c: "cleared r w"
  have "cleared r (modify r' (\<lambda>q. q\<lparr>player := (player q)\<lparr>status := Idle\<rparr>\<rparr>) w)"
    using c by (auto simp: cleared_def modify_def)
  then show ?thesis
    by (auto simp: playerIdle_def Let_def cleared_playNextTrack split: option.splits)
      (auto simp: cleared_def setTimeout_def)
qed

lemma cleared_player_stop: "cleared r w \<Longrightarrow> cleared r (player_stop r' w)"
  by (simp add: player_stop_def cleared_playerIdle)

lemma clearIdleTimeout_keeps:
  "queue (heap (clearIdleTimeout g w) r) = queue (heap w r)"
  "currentTrack (heap (clearIdleTimeout g w) r) = currentTrack (heap w r)"
  "isPlaying (heap (clearIdleTimeout g w) r) = isPlaying (heap w r)"
  "connection (heap (clearIdleTimeout g w) r) = connection (heap w r)"
  "nextRef (clearIdleTimeout g w) = nextRef w"
  "queues (clearIdleTimeout g w) = queues w"
  by (auto simp: clearIdleTimeout_def modify_def clearTimeout_def split: option.splits)

lemma commandStop_accepted:
  assumes q: "queues w g = Some r" and c: "connection (heap w r) \<noteq> None"
  shows "commandStop g True w =
    (Stopped,
     (clearIdleTimeout g (modify r (\<lambda>q. q\<lparr>connection := Some Destroyed\<rparr>)
        (player_stop r (modify r (\<lambda>q. q\<lparr>queue := [], currentTrack := None,
           isPlaying := False\<rparr>) w))))
     \<lparr>queues := (queues (clearIdleTimeout g (modify r (\<lambda>q. q\<lparr>connection := Some Destroyed\<rparr>)
        (player_stop r (modify r (\<lambda>q. q\<lparr>queue := [], currentTrack := None,
           isPlaying := False\<rparr>) w)))))(g := None)\<rparr>)"
  using q c by (simp add: commandStop_def Let_def)

lemma commandStop_effect:
  assumes q: "queues w g = Some r" and c: "connection (heap w r) \<noteq> None"
  shows "fst (commandStop g True w) = Stopped"
    and "queue (heap (snd (commandStop g True w)) r) = []"
    and "currentTrack (heap (snd (commandStop g True w)) r) = None"
    and "\<not> isPlaying (heap (snd (commandStop g True w)) r)"
    and "connection (heap (snd (commandStop g True w)) r) = Some Destroyed"
    and "queues (snd (commandStop g True w)) g = None"
proof -
  let ?w1 = "modify r (\<lambda>q. q\<lparr>queue := [], currentTrack := None, isPlaying := False\<rparr>) w"
  let ?w2 = "player_stop r ?w1"
  let ?w3 = "modify r (\<lambda>q. q\<lparr>connection := Some Destroyed\<rparr>) ?w2"
  have "cleared r ?w1"
    by (simp add: cleared_def)
  then have "cleared r ?w2"
    by (rule cleared_player_stop)
  then have c3: "cleared r ?w3"
    by (simp add: cleared_def)
  show "fst (commandStop g True w) = Stopped"
    and "queue (heap (snd (commandStop g True w)) r) = []"
    and "currentTrack (heap (snd (commandStop g True w)) r) = None"
    and "\<not> isPlaying (heap (snd (commandStop g True w)) r)"
    and "connection (heap (snd (commandStop g True w)) r) = Some Destroyed"
    and "queues (snd (commandStop g True w)) g = None"
    using c3 by (simp_all add: commandStop_accepted [OF q c] clearIdleTimeout_keeps cleared_def)
qed

lemma commandStop_rejected:
  "queues w g = None \<or> (\<exists>r. queues w g = Some r \<and> connection (heap w r) = None) \<Longrightarrow>
   commandStop g True w = (NothingPlaying, w)"
  by (auto simp: commandStop_def)

lemma pendingTimer_commandStop:
  assumes p: "pendingTimer tid e w"
  shows "pendingTimer tid e (snd (commandStop g v w))"
proof (cases "v \<and> (\<exists>r. queues w g = Some r \<and> connection (heap w r) \<noteq> None)")
  case False
  with p show ?thesis
    by (auto simp: commandStop_def split: option.splits)
next
  case True
  then obtain r where v: v and q: "queues w g = Some r" and c: "connection (heap w r) \<noteq> None"
    by blast
  let ?w1 = "modify r (\<lambda>q. q\<lparr>queue := [], currentTrack := None, isPlaying := False\<rparr>) w"
  let ?w2 = "player_stop r ?w1"
  let ?w3 = "modify r (\<lambda>q. q\<lparr>connection := Some Destroyed\<rparr>) ?w2"
  have "pendingTimer tid e ?w1"
    using p by (rule pendingTimer_modify) (use p in \<open>simp add: pendingTimer_def\<close>)
  then have p2: "pendingTimer tid e ?w2"
    by (rule pendingTimer_player_stop)
  then have "pendingTimer tid e ?w3"
    by (rule pendingTimer_modify) (use p2 in \<open>simp add: pendingTimer_def\<close>)
  then have "pendingTimer tid e (clearIdleTimeout g ?w3)"
    by (rule pendingTimer_clearIdleTimeout)
  then show ?thesis
    using v by (simp add: commandStop_accepted [OF q c] pendingTimer_def)
qed

lemma playNextTrack_absent:
  assumes "queues w g = None"
  shows "queues (playNextTrack g w) g = Some (nextRef w)"
    and "heap (playNextTrack g w) (nextRef w) = newSession\<lparr>idleTimeout := Some (nextTimer w)\<rparr>"
    and "timers (playNextTrack g w) = timers w @ [(nextTimer w, IDLE_TIMEOUT, IdleExpired g (nextRef w))]"
    and "streamRequests (playNextTrack g w) = streamRequests w"
    and "loading (playNextTrack g w) = loading w"
  using assms
  by (simp_all add: playNextTrack_def getQueue_def setIdleTimeout_def clearIdleTimeout_def
      modify_def setTimeout_def Let_def newSession_def)


text \<open>
  Claim C7. \<open>%stop\<close> from a member in a voice channel. When the guild has a queue
  object with a voice connection, the reply is "Stopped"; that object ends with an empty
  queue, no current track, \<open>isPlaying\<close> false and its connection destroyed, and the
  guild has no entry in \<open>queues\<close>. From there \<open>getQueue\<close> makes a new object equal to
  the initial one (empty queue, loop mode OFF), and an accepted \<open>%play\<close> answers
  "Now Playing", with the requested track current, nothing pending and loop mode OFF.
  When the guild has no queue object, or one without a connection, the reply is
  "Nothing Playing" and the world is unchanged.
\<close>

theorem stop_destroys_session:
  "(\<forall>r. queues w g = Some r \<and> connection (heap w r) \<noteq> None \<longrightarrow>
       fst (commandStop g True w) = Stopped
     \<and> queue (heap (snd (commandStop g True w)) r) = []
     \<and> currentTrack (heap (snd (commandStop g True w)) r) = None
     \<and> \<not> isPlaying (heap (snd (commandStop g True w)) r)
     \<and> connection (heap (snd (commandStop g True w)) r) = Some Destroyed
     \<and> queues (snd (commandStop g True w)) g = None
     \<and> heap (snd (getQueue g (snd (commandStop g True w))))
             (fst (getQueue g (snd (commandStop g True w)))) = newSession
     \<and> (\<forall>m. accepted g m \<longrightarrow>
           fst (commandPlay m (snd (commandStop g True w))) = NowPlaying 1
         \<and> queues (snd (commandPlay m (snd (commandStop g True w)))) g =
             Some (nextRef (snd (commandStop g True w)))
         \<and> queue (heap (snd (commandPlay m (snd (commandStop g True w))))
                    (nextRef (snd (commandStop g True w)))) = []
         \<and> loopMode (heap (snd (commandPlay m (snd (commandStop g True w))))
                    (nextRef (snd (commandStop g True w)))) = LoopMode_OFF
         \<and> currentTrack (heap (snd (commandPlay m (snd (commandStop g True w))))
                    (nextRef (snd (commandStop g True w)))) = requestedTrack m))
   \<and> (queues w g = None \<or> (\<exists>r. queues w g = Some r \<and> connection (heap w r) = None) \<longrightarrow>
        commandStop g True w = (NothingPlaying, w))"
proof (intro conjI allI impI)
  fix r
  assume h: "queues w g = Some r \<and> connection (heap w r) \<noteq> None"
  then have q: "queues w g = Some r" and c: "connection (heap w r) \<noteq> None"
    by simp_all
  let ?w' = "snd (commandStop g True w)"
  note eff = commandStop_effect [OF q c]
  show "fst (commandStop g True w) = Stopped" by (rule eff(1))
  show "queue (heap ?w' r) = []" by (rule eff(2))
  show "currentTrack (heap ?w' r) = None" by (rule eff(3))
  show "\<not> isPlaying (heap ?w' r)" by (rule eff(4))
  show "connection (heap ?w' r) = Some Destroyed" by (rule eff(5))
  show "queues ?w' g = None" by (rule eff(6))
  show "heap (snd (getQueue g ?w')) (fst (getQueue g ?w')) = newSession"
    using eff(6) by (simp add: getQueue_def)
  fix m
  assume a: "accepted g m"
  from accepted_requestedTrack [OF a] obtain t where t: "requestedTrack m = Some t" ..
  note one = commandPlay_first [OF eff(6) a t]
  show "fst (commandPlay m ?w') = NowPlaying 1" by (rule one(1))
  show "queues (snd (commandPlay m ?w')) g = Some (nextRef ?w')" by (rule one(2))
  show "queue (heap (snd (commandPlay m ?w')) (nextRef ?w')) = []"
    by (simp add: one(3) newSession_def)
  show "loopMode (heap (snd (commandPlay m ?w')) (nextRef ?w')) = LoopMode_OFF"
    by (simp add: one(3) newSession_def)
  show "currentTrack (heap (snd (commandPlay m ?w')) (nextRef ?w')) = requestedTrack m"
    by (simp add: one(3) t)
next
  assume "queues w g = None \<or> (\<exists>r. queues w g = Some r \<and> connection (heap w r) = None)"
  then show "commandStop g True w = (NothingPlaying, w)"
    by (rule commandStop_rejected)
qed

lemma playingWorld_connection: "connection (heap playingWorld 0) = Some Ready"
  by (simp add: playingWorld_def model_defs)

theorem stop_destroys_session_witness:
  "queues playingWorld ''g'' = Some 0 \<and> connection (heap playingWorld 0) \<noteq> None
   \<and> accepted ''g'' (request songB)
   \<and> fst (commandStop ''g'' True playingWorld) = Stopped
   \<and> queue (heap (snd (commandStop ''g'' True playingWorld)) 0) = []
   \<and> currentTrack (heap (snd (commandStop ''g'' True playingWorld)) 0) = None
   \<and> \<not> isPlaying (heap (snd (commandStop ''g'' True playingWorld)) 0)
   \<and> connection (heap (snd (commandStop ''g'' True playingWorld)) 0) = Some Destroyed
   \<and> queues (snd (commandStop ''g'' True playingWorld)) ''g'' = None
   \<and> queues (snd (commandPlay (request songB) (snd (commandStop ''g'' True playingWorld)))) ''g''
       = Some 1
   \<and> loopMode (heap (snd (commandPlay (request songB) (snd (commandStop ''g'' True playingWorld)))) 1)
       = LoopMode_OFF
   \<and> currentTrack (heap (snd (commandPlay (request songB)
        (snd (commandStop ''g'' True playingWorld)))) 1) = Some trackB
   \<and> queues (start False) ''g'' = None
   \<and> commandStop ''g'' True (start False) = (NothingPlaying, start False)"
proof -
  have q: "queues playingWorld ''g'' = Some 0" and c: "connection (heap playingWorld 0) \<noteq> None"
    by (simp_all add: playingWorld_facts playingWorld_connection)
  have a: "accepted ''g'' (request songB)"
    by (simp add: accepted_def request_def)
  have n: "nextRef (snd (commandStop ''g'' True playingWorld)) = 1"
    by (simp add: playingWorld_def model_defs)
  have e: "queues (start False) ''g'' = None"
    by (simp add: start_def)
  from stop_destroys_session [of playingWorld "''g''"] q c a
  have 1: "fst (commandStop ''g'' True playingWorld) = Stopped
     \<and> queue (heap (snd (commandStop ''g'' True playingWorld)) 0) = []
     \<and> currentTrack (heap (snd (commandStop ''g'' True playingWorld)) 0) = None
     \<and> \<not> isPlaying (heap (snd (commandStop ''g'' True playingWorld)) 0)
     \<and> connection (heap (snd (commandStop ''g'' True playingWorld)) 0) = Some Destroyed
     \<and> queues (snd (commandStop ''g'' True playingWorld)) ''g'' = None
     \<and> queues (snd (commandPlay (request songB) (snd (commandStop ''g'' True playingWorld)))) ''g''
         = Some 1
     \<and> loopMode (heap (snd (commandPlay (request songB) (snd (commandStop ''g'' True playingWorld)))) 1)
         = LoopMode_OFF
     \<and> currentTrack (heap (snd (commandPlay (request songB)
          (snd (commandStop ''g'' True playingWorld)))) 1) = Some trackB"
    unfolding n [symmetric] requested_tracks(2) [symmetric] by blast
  from stop_destroys_session [of "start False" "''g''"] e
  have 2: "commandStop ''g'' True (start False) = (NothingPlaying, start False)"
    by blast
  show ?thesis
    using q c a e 1 2 by blast
qed

text \<open>
  Claim C8. A guild has a queue object with a connection, and a timer with callback
  \<open>playNextTrack(guildId)\<close> is pending (the retry timer of a failed stream request).
  After \<open>%stop\<close> the guild has no entry in \<open>queues\<close>, but the timer is still
  pending; when it fires, \<open>playNextTrack\<close> calls \<open>getQueue\<close>, and the guild has an entry
  again: a new object, equal to the initial one but for its armed idle timer, so without
  a connection. No stream was requested and no \<open>%play\<close> was handled.
\<close>

theorem retry_timer_recreates_session:
  assumes q: "queues w g = Some r" and c: "connection (heap w r) \<noteq> None"
    and p: "pendingTimer tid (ms, PlayNext g) w"
  shows "let w1 = snd (commandStop g True w); w2 = fireTimer tid w1 in
           queues w1 g = None
         \<and> map_of (timers w1) tid = Some (ms, PlayNext g)
         \<and> queues w2 g = Some (nextRef w1)
         \<and> heap w2 (nextRef w1) = newSession\<lparr>idleTimeout := Some (nextTimer w1)\<rparr>
         \<and> connection (heap w2 (nextRef w1)) = None
         \<and> streamRequests w2 = streamRequests w1
         \<and> loading w2 = loading w1"
proof -
  let ?w1 = "snd (commandStop g True w)"
  let ?c = "clearTimeout tid ?w1"
  have gone: "queues ?w1 g = None"
    by (rule commandStop_effect(6) [OF q c])
  have p1: "pendingTimer tid (ms, PlayNext g) ?w1"
    using p by (rule pendingTimer_commandStop)
  then have t: "map_of (timers ?w1) tid = Some (ms, PlayNext g)"
    by (simp add: pendingTimer_def)
  have f: "fireTimer tid ?w1 = playNextTrack g ?c"
    by (simp add: fireTimer_def t)
  have same: "queues ?c = queues ?w1" "nextRef ?c = nextRef ?w1" "nextTimer ?c = nextTimer ?w1"
    "streamRequests ?c = streamRequests ?w1" "loading ?c = loading ?w1"
    by (simp_all add: clearTimeout_def)
  have gone': "queues ?c g = None"
    using gone by (simp add: same)
  note fresh = playNextTrack_absent [OF gone', unfolded same]
  show ?thesis
    unfolding Let_def f using gone t fresh by (simp add: newSession_def)
qed

lemma retryWorld_facts:
  "queues retryWorld ''g'' = Some 0"
  "connection (heap retryWorld 0) = Some Ready"
  "timers retryWorld = [(0, 1000, PlayNext ''g'')]"
  "nextTimer retryWorld = 1"
  "pendingTimer 0 (1000, PlayNext ''g'') retryWorld"
  by (simp_all add: retryWorld_def pendingTimer_def model_defs)

theorem retry_timer_recreates_session_witness:
  "queues retryWorld ''g'' = Some 0 \<and> connection (heap retryWorld 0) \<noteq> None
   \<and> pendingTimer 0 (1000, PlayNext ''g'') retryWorld
   \<and> queues (snd (commandStop ''g'' True retryWorld)) ''g'' = None
   \<and> queues (fireTimer 0 (snd (commandStop ''g'' True retryWorld))) ''g'' = Some 1
   \<and> connection (heap (fireTimer 0 (snd (commandStop ''g'' True retryWorld))) 1) = None"
proof -
  have q: "queues retryWorld ''g'' = Some 0" and c: "connection (heap retryWorld 0) \<noteq> None"
    and p: "pendingTimer 0 (1000, PlayNext ''g'') retryWorld"
    by (simp_all add: retryWorld_facts)
  have n: "nextRef (snd (commandStop ''g'' True retryWorld)) = 1"
    by (simp add: retryWorld_def model_defs)
  from retry_timer_recreates_session [OF q c p]
  show ?thesis
    using q c p by (simp add: Let_def n newSession_def)
qed

section \<open>Retry after a failed stream request\<close>

lemma tracks_differ: "trackA \<noteq> trackB"
  by (simp add: trackA_def trackB_def trackOf_def songA_def songB_def)

text \<open>Every start of the advancer on a non-empty queue sets \<open>retryCount\<close> to 0, so a
  failure handled right after its own start takes the retry branch, and the retry is
  a new start: it selects again.\<close>

lemma playNextTrack_resets_retryCount:
  "queues w g = Some r \<Longrightarrow> queue (heap w r) = x # xs \<Longrightarrow>
   retryCount (heap (playNextTrack g w) r) = 0"
  by (auto simp: playNextTrack_def getQueue_def clearIdleTimeout_def modify_def clearTimeout_def
      Let_def split: option.splits)

lemma first_failure_retries:
  "retryCount (heap w r) = 0 \<Longrightarrow>
   playNextTrack_resume False (g, r, tr) w =
     snd (setTimeout (PlayNext g) 1000 (modify r (\<lambda>q. q\<lparr>retryCount := 1\<rparr>) w))"
  by (simp add: playNextTrack_resume_def MAX_RETRIES_def modify_def)

text \<open>
  Claim C1 says that a track whose stream request always fails is requested
  \<open>MAX_RETRIES + 1 = 3\<close> times, the same track each time, and is then skipped. On the
  code it is requested once. With A and B requested and every stream failing: the
  failure of A schedules the retry timer with \<open>retryCount = 1\<close>; the timer calls
  \<open>playNextTrack\<close>, which takes B from the queue (A has left it) and sets \<open>retryCount\<close>
  back to 0; B fails the same way, the next timer finds the queue empty and arms the
  idle timer. The stream requests are A, B - one each - and no "Playback Error" embed
  is ever sent: the give-up branch is not reached.
\<close>

theorem failed_track_requested_once:
  "streamRequests failingWorld = [trackA]
   \<and> queue (heap failingWorld 0) = [trackB]
   \<and> retryCount (heap failingWorld 0) = 1
   \<and> timers failingWorld = [(0, 1000, PlayNext ''g'')]
   \<and> streamRequests (run failingWorld [TimerFired 0]) = [trackA, trackB]
   \<and> currentTrack (heap (run failingWorld [TimerFired 0]) 0) = Some trackB
   \<and> retryCount (heap (run failingWorld [TimerFired 0]) 0) = 0
   \<and> streamRequests (run failingWorld [TimerFired 0, StreamSettled 0 False, TimerFired 1])
       = [trackA, trackB]
   \<and> sent (run failingWorld [TimerFired 0, StreamSettled 0 False, TimerFired 1]) = []
   \<and> loading (run failingWorld [TimerFired 0, StreamSettled 0 False, TimerFired 1]) = []
   \<and> map (snd \<circ> snd) (timers (run failingWorld [TimerFired 0, StreamSettled 0 False, TimerFired 1]))
       = [IdleExpired ''g'' 0]"
  by (simp add: failingWorld_def model_defs)

section \<open>Track loop\<close>

text \<open>With loop mode TRACK, a current track and a non-empty queue, the advancer selects
  the current track again and leaves the queue as it is.\<close>

lemma playNextTrack_track_mode:
  assumes "queues w g = Some r" and "loopMode (heap w r) = LoopMode_TRACK"
    and "currentTrack (heap w r) = Some c" and "queue (heap w r) = x # xs"
  shows "currentTrack (heap (playNextTrack g w) r) = Some c"
    and "queue (heap (playNextTrack g w) r) = x # xs"
    and "streamRequests (playNextTrack g w) = streamRequests w @ [c]"
  using assms
  by (auto simp: playNextTrack_def getQueue_def clearIdleTimeout_def modify_def clearTimeout_def
      Let_def split: option.splits)

text \<open>
  Claim C2 says that in loop mode TRACK the finished track is selected and played again,
  also when nothing is pending. On the code the empty-queue test of \<open>playNextTrack\<close>
  comes before the loop-mode test: with A playing in TRACK mode and an empty queue, the
  Idle listener schedules \<open>playNextTrack\<close> (100 ms), which finds the queue empty, clears
  the current track, sets \<open>isPlaying\<close> to false and arms the idle timer. A is not
  requested a second time.
\<close>

theorem track_loop_stops_on_empty_queue:
  "loopMode (heap soloLoopWorld 0) = LoopMode_TRACK
   \<and> currentTrack (heap soloLoopWorld 0) = Some trackA
   \<and> queue (heap soloLoopWorld 0) = []
   \<and> status (player (heap soloLoopWorld 0)) = Playing
   \<and> timers (run soloLoopWorld [PlayerIdle 0]) = [(0, 100, PlayNext ''g'')]
   \<and> currentTrack (heap (run soloLoopWorld [PlayerIdle 0, TimerFired 0]) 0) = None
   \<and> \<not> isPlaying (heap (run soloLoopWorld [PlayerIdle 0, TimerFired 0]) 0)
   \<and> streamRequests (run soloLoopWorld [PlayerIdle 0, TimerFired 0]) = [trackA]
   \<and> timers (run soloLoopWorld [PlayerIdle 0, TimerFired 0]) = [(1, IDLE_TIMEOUT, IdleExpired ''g'' 0)]"
  by (simp add: soloLoopWorld_def model_defs)

section \<open>Skip under track loop\<close>

text \<open>
  Claim C4 says that a skip always advances to the next track, also in loop mode TRACK,
  because \<open>commandSkip\<close> sets the loop mode to OFF around \<open>player.stop()\<close>. That works
  only when the player goes idle inside \<open>stop()\<close>. When it goes idle after
  \<open>commandSkip\<close> has returned, the loop mode is TRACK again by then: with A playing in
  TRACK mode and B pending, the Idle listener schedules \<open>playNextTrack\<close>, which selects A
  again and leaves B pending. With an immediate stop the same skip selects B.
\<close>

theorem skip_replays_looped_track:
  "\<not> immediateStop (loopedWorld False)
   \<and> fst (commandSkip ''g'' True (loopedWorld False)) = Skipped trackA
   \<and> currentTrack (heap (run (loopedWorld False) [Skip ''g'' True, PlayerIdle 0, TimerFired 0]) 0)
       = Some trackA
   \<and> queue (heap (run (loopedWorld False) [Skip ''g'' True, PlayerIdle 0, TimerFired 0]) 0)
       = [trackB]
   \<and> streamRequests (run (loopedWorld False) [Skip ''g'' True, PlayerIdle 0, TimerFired 0])
       = [trackA, trackA]
   \<and> immediateStop (loopedWorld True)
   \<and> currentTrack (heap (run (loopedWorld True) [Skip ''g'' True]) 0) = Some trackB
   \<and> streamRequests (run (loopedWorld True) [Skip ''g'' True]) = [trackA, trackB]"
  by (simp add: loopedWorld_def model_defs)

section \<open>Queue loop\<close>

lemma playNextTrack_queue_mode:
  assumes "queues w g = Some r" and "loopMode (heap w r) = LoopMode_QUEUE"
    and "queue (heap w r) = x # xs"
  shows "queue (heap (playNextTrack g w) r) = xs @ [x]"
    and "currentTrack (heap (playNextTrack g w) r) = Some x"
    and "streamRequests (playNextTrack g w) = streamRequests w @ [x]"
  using assms
  by (auto simp: playNextTrack_def getQueue_def clearIdleTimeout_def modify_def clearTimeout_def
      Let_def LoopMode_QUEUE_def LoopMode_TRACK_def split: option.splits)

lemma playNextTrack_off_mode:
  assumes "queues w g = Some r" and "loopMode (heap w r) = LoopMode_OFF"
    and "queue (heap w r) = x # xs"
  shows "queue (heap (playNextTrack g w) r) = xs"
    and "currentTrack (heap (playNextTrack g w) r) = Some x"
    and "streamRequests (playNextTrack g w) = streamRequests w @ [x]"
  using assms
  by (auto simp: playNextTrack_def getQueue_def clearIdleTimeout_def modify_def clearTimeout_def
      Let_def LoopMode_QUEUE_def LoopMode_TRACK_def LoopMode_OFF_def split: option.splits)

lemma playNextTrack_resume_queue:
  "queue (heap (playNextTrack_resume ok c w) r) = queue (heap w r)"
  by (cases c) (auto simp: playNextTrack_resume_def modify_def setTimeout_def Let_def
      split: option.splits)

lemma queueLoopWorld_facts:
  "queues (snd (commandPlay (request songC) queueLoopWorld)) ''g'' = Some 0"
  "loopMode (heap (snd (commandPlay (request songC) queueLoopWorld)) 0) = LoopMode_QUEUE"
  "queue (heap (snd (commandPlay (request songC) queueLoopWorld)) 0) = [trackB, trackC]"
  "queue (heap queueLoopWorld 0) = [trackB]"
  by (simp_all add: queueLoopWorld_def model_defs)

lemma failingWorld_facts:
  "queues failingWorld ''g'' = Some 0"
  "loopMode (heap failingWorld 0) = LoopMode_OFF"
  "queue (heap failingWorld 0) = [trackB]"
  by (simp_all add: failingWorld_def model_defs)

text \<open>
  Claim C3 as stated fails on the code, in both halves. A was selected while the loop
  mode was OFF and finishes while it is QUEUE: it is not in the pending queue afterwards.
  And in \<open>gaveUpWorld\<close> the give-up branch has run for B (the "Playback Error" embed was
  sent), yet B is still in the pending queue, and the timer of that branch requests it
  once more.
\<close>

theorem queue_loop_counterexample:
  "loopMode (heap queueLoopWorld 0) = LoopMode_QUEUE
   \<and> currentTrack (heap queueLoopWorld 0) = Some trackA
   \<and> status (player (heap queueLoopWorld 0)) = Playing
   \<and> queue (heap queueLoopWorld 0) = [trackB]
   \<and> queue (heap (run queueLoopWorld [PlayerIdle 0]) 0) = [trackB]
   \<and> trackA \<notin> set (queue (heap (run queueLoopWorld [PlayerIdle 0]) 0))
   \<and> loopMode (heap gaveUpWorld 0) = LoopMode_QUEUE
   \<and> sent gaveUpWorld = [(''c'', NowPlayingEmbed trackA), (''c'', NowPlayingEmbed trackB),
        (''c'', PlaybackErrorEmbed trackB)]
   \<and> queue (heap gaveUpWorld 0) = [trackB]
   \<and> timers gaveUpWorld = [(0, 1000, PlayNext ''g''), (1, 1000, PlayNext ''g''), (2, 500, PlayNext ''g'')]
   \<and> streamRequests (run gaveUpWorld [TimerFired 2]) = [trackA, trackB, trackB, trackB, trackB, trackB]"
  by (simp add: gaveUpWorld_def queueLoopWorld_def model_defs)

text \<open>
  Claim C3, amended. The pending queue changes at selection only. With loop mode QUEUE
  the advancer takes the head of a non-empty pending queue, makes it the current track,
  requests its stream and appends it to the tail of the pending queue at once; with loop
  mode OFF it takes the head and does not append it. What runs when the stream request
  settles - playing, the retry, the give-up - leaves every pending queue as it is.
\<close>

theorem queue_loop_requeues_at_selection:
  "(\<forall>r x xs. queues w g = Some r \<and> loopMode (heap w r) = LoopMode_QUEUE
       \<and> queue (heap w r) = x # xs \<longrightarrow>
       queue (heap (playNextTrack g w) r) = xs @ [x]
     \<and> currentTrack (heap (playNextTrack g w) r) = Some x
     \<and> streamRequests (playNextTrack g w) = streamRequests w @ [x])
   \<and> (\<forall>r x xs. queues w g = Some r \<and> loopMode (heap w r) = LoopMode_OFF
       \<and> queue (heap w r) = x # xs \<longrightarrow>
       queue (heap (playNextTrack g w) r) = xs
     \<and> currentTrack (heap (playNextTrack g w) r) = Some x)
   \<and> (\<forall>ok c r. queue (heap (playNextTrack_resume ok c w) r) = queue (heap w r))"
  by (simp add: playNextTrack_queue_mode playNextTrack_off_mode playNextTrack_resume_queue)

theorem queue_loop_requeues_at_selection_witness:
  "queues (snd (commandPlay (request songC) queueLoopWorld)) ''g'' = Some 0
   \<and> loopMode (heap (snd (commandPlay (request songC) queueLoopWorld)) 0) = LoopMode_QUEUE
   \<and> queue (heap (snd (commandPlay (request songC) queueLoopWorld)) 0) = [trackB, trackC]
   \<and> queue (heap (playNextTrack ''g'' (snd (commandPlay (request songC) queueLoopWorld))) 0)
       = [trackC, trackB]
   \<and> currentTrack (heap (playNextTrack ''g'' (snd (commandPlay (request songC) queueLoopWorld))) 0)
       = Some trackB
   \<and> queues failingWorld ''g'' = Some 0
   \<and> loopMode (heap failingWorld 0) = LoopMode_OFF
   \<and> queue (heap failingWorld 0) = [trackB]
   \<and> queue (heap (playNextTrack ''g'' failingWorld) 0) = []
   \<and> currentTrack (heap (playNextTrack ''g'' failingWorld) 0) = Some trackB
   \<and> queue (heap (playNextTrack_resume False (''g'', 0, trackB) queueLoopWorld) 0) = [trackB]"
proof -
  let ?w = "snd (commandPlay (request songC) queueLoopWorld)"
  note q = queueLoopWorld_facts and f = failingWorld_facts
  from queue_loop_requeues_at_selection [of ?w "''g''"] q(1,2,3)
  have 1: "queue (heap (playNextTrack ''g'' ?w) 0) = [trackC, trackB]
     \<and> currentTrack (heap (playNextTrack ''g'' ?w) 0) = Some trackB"
    by fastforce
  from queue_loop_requeues_at_selection [of failingWorld "''g''"] f
  have 2: "queue (heap (playNextTrack ''g'' failingWorld) 0) = []
     \<and> currentTrack (heap (playNextTrack ''g'' failingWorld) 0) = Some trackB"
    by fastforce
  from queue_loop_requeues_at_selection [of queueLoopWorld "''g''"] q(4)
  have 3: "queue (heap (playNextTrack_resume False (''g'', 0, trackB) queueLoopWorld) 0) = [trackB]"
    by simp
  show ?thesis
    using q(1,2,3) f 1 2 3 by blast
qed

section \<open>The idle timer\<close>

lemma playNextTrack_idle:
  assumes "queues w g = Some r" and "queue (heap w r) = []"
  shows "currentTrack (heap (playNextTrack g w) r) = None"
    and "\<not> isPlaying (heap (playNextTrack g w) r)"
    and "idleTimeout (heap (playNextTrack g w) r) = Some (nextTimer w)"
    and "timers (playNextTrack g w) =
           filter (\<lambda>e. Some (fst e) \<noteq> idleTimeout (heap w r)) (timers w)
           @ [(nextTimer w, IDLE_TIMEOUT, IdleExpired g r)]"
  using assms
  by (auto simp: playNextTrack_def getQueue_def setIdleTimeout_def clearIdleTimeout_def
      modify_def setTimeout_def clearTimeout_def Let_def split: option.splits)

lemma map_of_filter_self: "map_of (filter (\<lambda>e. fst e \<noteq> tid) xs) tid = None"
  by (induction xs) auto

lemma fireTimer_idle:
  assumes "map_of (timers w) tid = Some (ms, IdleExpired g r)"
  shows "connection (heap w r) \<noteq> None \<Longrightarrow> queues (fireTimer tid w) g = None"
    and "connection (heap w r) \<noteq> None \<Longrightarrow> connection (heap (fireTimer tid w) r) = Some Destroyed"
    and "connection (heap w r) = None \<Longrightarrow> fireTimer tid w = clearTimeout tid w"
  using assms
  by (auto simp: fireTimer_def clearTimeout_def modify_def Let_def split: option.splits)

lemma commandPlay_disarms:
  assumes "queues w g = Some r" and "idleTimeout (heap w r) = Some tid"
    and "\<not> isPlaying (heap w r)" and "accepted g m"
  shows "idleTimeout (heap (snd (commandPlay m w)) r) = None"
    and "timers (snd (commandPlay m w)) = filter (\<lambda>e. fst e \<noteq> tid) (timers w)"
  using assms
  by (auto simp: commandPlay_unfold accepted_def playNextTrack_def getQueue_def clearIdleTimeout_def
      modify_def clearTimeout_def Let_def split: option.splits list.splits)

lemma idleWorld_facts:
  "queues idleWorld ''g'' = Some 0"
  "idleTimeout (heap idleWorld 0) = Some 0"
  "\<not> isPlaying (heap idleWorld 0)"
  "connection (heap idleWorld 0) = Some Ready"
  "timers idleWorld = [(0, 300000, IdleExpired ''g'' 0)]"
  by (simp_all add: idleWorld_def playingWorld_def model_defs)

lemma orphanWorld_facts:
  "queues orphanWorld ''g'' = Some 1"
  "connection (heap orphanWorld 1) = None"
  "timers orphanWorld = [(1, 300000, IdleExpired ''g'' 1)]"
  by (simp_all add: orphanWorld_def retryWorld_def model_defs)

lemma playingWorld_timers: "timers playingWorld = []" "nextTimer playingWorld = 0"
  "idleTimeout (heap playingWorld 0) = None"
  by (simp_all add: playingWorld_def model_defs)

text \<open>
  Claim C6 as stated fails on the code. A \<open>%play\<close> without a query creates the queue
  object (\<open>getQueue\<close> is the first statement of \<open>commandPlay\<close>) and returns: the session
  has an empty queue and no current track, and no idle timer. And in \<open>orphanWorld\<close> the
  session has an empty queue, no current track and an armed idle timer, no command
  arrives, the timer fires, and the session is still in \<open>queues\<close>: it has no connection.
\<close>

theorem idle_timer_counterexample:
  "queues (run (start False) [Play bareRequest]) ''g'' = Some 0
   \<and> queue (heap (run (start False) [Play bareRequest]) 0) = []
   \<and> currentTrack (heap (run (start False) [Play bareRequest]) 0) = None
   \<and> idleTimeout (heap (run (start False) [Play bareRequest]) 0) = None
   \<and> timers (run (start False) [Play bareRequest]) = []
   \<and> queues (run retryWorld [Stop ''g'' True, TimerFired 0]) ''g'' = Some 1
   \<and> queue (heap (run retryWorld [Stop ''g'' True, TimerFired 0]) 1) = []
   \<and> currentTrack (heap (run retryWorld [Stop ''g'' True, TimerFired 0]) 1) = None
   \<and> timers (run retryWorld [Stop ''g'' True, TimerFired 0]) = [(1, IDLE_TIMEOUT, IdleExpired ''g'' 1)]
   \<and> queues (run retryWorld [Stop ''g'' True, TimerFired 0, TimerFired 1]) ''g'' = Some 1
   \<and> timers (run retryWorld [Stop ''g'' True, TimerFired 0, TimerFired 1]) = []"
  by (simp add: retryWorld_def model_defs)

text \<open>
  Claim C6, amended. When the advancer finds the pending queue of a session empty, and
  the loop mode is not TRACK or there is no current track, it clears the current track,
  sets \<open>isPlaying\<close> to false and arms one idle timer of 300000 ms, replacing the one
  armed before. When an idle timer fires, the session is destroyed (connection
  destroyed, entry removed from \<open>queues\<close>) if it has a connection, and nothing but the
  timer's removal happens if it has none. An accepted \<open>%play\<close>, not interrupted, on a
  session that is not playing cancels the armed idle timer: it is no longer pending, and
  its firing changes nothing.
\<close>

theorem idle_timer_armed_by_advancer:
  "(\<forall>r. queues w g = Some r \<and> queue (heap w r) = []
       \<and> \<not> (loopMode (heap w r) = LoopMode_TRACK \<and> currentTrack (heap w r) \<noteq> None) \<longrightarrow>
       currentTrack (heap (playNextTrack g w) r) = None
     \<and> \<not> isPlaying (heap (playNextTrack g w) r)
     \<and> idleTimeout (heap (playNextTrack g w) r) = Some (nextTimer w)
     \<and> timers (playNextTrack g w) =
         filter (\<lambda>e. Some (fst e) \<noteq> idleTimeout (heap w r)) (timers w)
         @ [(nextTimer w, 300000, IdleExpired g r)])
   \<and> (\<forall>r tid ms. map_of (timers w) tid = Some (ms, IdleExpired g r) \<longrightarrow>
       (if connection (heap w r) \<noteq> None
        then queues (fireTimer tid w) g = None
           \<and> connection (heap (fireTimer tid w) r) = Some Destroyed
        else fireTimer tid w = clearTimeout tid w))
   \<and> (\<forall>r tid m. queues w g = Some r \<and> idleTimeout (heap w r) = Some tid
       \<and> \<not> isPlaying (heap w r) \<and> accepted g m \<longrightarrow>
       idleTimeout (heap (snd (commandPlay m w)) r) = None
     \<and> timers (snd (commandPlay m w)) = filter (\<lambda>e. fst e \<noteq> tid) (timers w)
     \<and> fireTimer tid (snd (commandPlay m w)) = snd (commandPlay m w))"
proof (intro conjI allI impI)
  fix r
  assume h: "queues w g = Some r \<and> queue (heap w r) = []
       \<and> \<not> (loopMode (heap w r) = LoopMode_TRACK \<and> currentTrack (heap w r) \<noteq> None)"
  then have q: "queues w g = Some r" and e: "queue (heap w r) = []"
    by simp_all
  note idle = playNextTrack_idle [OF q e]
  show "currentTrack (heap (playNextTrack g w) r) = None" by (rule idle(1))
  show "\<not> isPlaying (heap (playNextTrack g w) r)" by (rule idle(2))
  show "idleTimeout (heap (playNextTrack g w) r) = Some (nextTimer w)" by (rule idle(3))
  show "timers (playNextTrack g w) =
      filter (\<lambda>e. Some (fst e) \<noteq> idleTimeout (heap w r)) (timers w)
      @ [(nextTimer w, 300000, IdleExpired g r)]"
    using idle(4) by (simp add: IDLE_TIMEOUT_def)
next
  fix r tid ms
  assume t: "map_of (timers w) tid = Some (ms, IdleExpired g r)"
  show "if connection (heap w r) \<noteq> None
        then queues (fireTimer tid w) g = None
           \<and> connection (heap (fireTimer tid w) r) = Some Destroyed
        else fireTimer tid w = clearTimeout tid w"
    using fireTimer_idle [OF t] by simp
next
  fix r tid m
  assume h: "queues w g = Some r \<and> idleTimeout (heap w r) = Some tid
       \<and> \<not> isPlaying (heap w r) \<and> accepted g m"
  then have q: "queues w g = Some r" and i: "idleTimeout (heap w r) = Some tid"
    and n: "\<not> isPlaying (heap w r)" and a: "accepted g m"
    by simp_all
  note d = commandPlay_disarms [OF q i n a]
  show "idleTimeout (heap (snd (commandPlay m w)) r) = None" by (rule d(1))
  show "timers (snd (commandPlay m w)) = filter (\<lambda>e. fst e \<noteq> tid) (timers w)" by (rule d(2))
  show "fireTimer tid (snd (commandPlay m w)) = snd (commandPlay m w)"
    by (simp add: fireTimer_def d(2) map_of_filter_self)
qed

lemma playingWorld_mode: "loopMode (heap playingWorld 0) = LoopMode_OFF"
  by (simp add: playingWorld_def model_defs)

theorem idle_timer_armed_by_advancer_witness:
  "queues playingWorld ''g'' = Some 0 \<and> queue (heap playingWorld 0) = []
   \<and> loopMode (heap playingWorld 0) = LoopMode_OFF
   \<and> idleTimeout (heap (playNextTrack ''g'' playingWorld) 0) = Some 0
   \<and> timers (playNextTrack ''g'' playingWorld) = [(0, 300000, IdleExpired ''g'' 0)]
   \<and> map_of (timers idleWorld) 0 = Some (300000, IdleExpired ''g'' 0)
   \<and> connection (heap idleWorld 0) \<noteq> None
   \<and> queues (fireTimer 0 idleWorld) ''g'' = None
   \<and> connection (heap (fireTimer 0 idleWorld) 0) = Some Destroyed
   \<and> map_of (timers orphanWorld) 1 = Some (300000, IdleExpired ''g'' 1)
   \<and> connection (heap orphanWorld 1) = None
   \<and> queues (fireTimer 1 orphanWorld) ''g'' = Some 1
   \<and> queues idleWorld ''g'' = Some 0 \<and> idleTimeout (heap idleWorld 0) = Some 0
   \<and> \<not> isPlaying (heap idleWorld 0) \<and> accepted ''g'' (request songB)
   \<and> timers (snd (commandPlay (request songB) idleWorld)) = []
   \<and> fireTimer 0 (snd (commandPlay (request songB) idleWorld))
       = snd (commandPlay (request songB) idleWorld)"
proof -
  note p = playingWorld_facts playingWorld_timers and i = idleWorld_facts and o = orphanWorld_facts
  have a: "accepted ''g'' (request songB)"
    by (simp add: accepted_def request_def)
  have mi: "map_of (timers idleWorld) 0 = Some (300000, IdleExpired ''g'' 0)"
    and mo: "map_of (timers orphanWorld) 1 = Some (300000, IdleExpired ''g'' 1)"
    by (simp_all add: i o)
  have off: "LoopMode_OFF \<noteq> LoopMode_TRACK"
    by (simp add: LoopMode_OFF_def LoopMode_TRACK_def)
  from idle_timer_armed_by_advancer [of playingWorld "''g''"] p(1,3) playingWorld_mode off
  have 1: "idleTimeout (heap (playNextTrack ''g'' playingWorld) 0) = Some 0
     \<and> timers (playNextTrack ''g'' playingWorld) = [(0, 300000, IdleExpired ''g'' 0)]"
    by (simp add: p)
  from idle_timer_armed_by_advancer [of idleWorld "''g''"] mi i(4)
  have 2: "queues (fireTimer 0 idleWorld) ''g'' = None
     \<and> connection (heap (fireTimer 0 idleWorld) 0) = Some Destroyed"
    by fastforce
  from idle_timer_armed_by_advancer [of orphanWorld "''g''"] mo o(2)
  have "fireTimer 1 orphanWorld = clearTimeout 1 orphanWorld"
    by fastforce
  then have 3: "queues (fireTimer 1 orphanWorld) ''g'' = Some 1"
    by (simp add: clearTimeout_def o)
  from idle_timer_armed_by_advancer [of idleWorld "''g''"] i(1,2,3) a
  have 4: "timers (snd (commandPlay (request songB) idleWorld)) = []
     \<and> fireTimer 0 (snd (commandPlay (request songB) idleWorld))
         = snd (commandPlay (request songB) idleWorld)"
    by (simp add: i)
  show ?thesis
    using p(1,3) playingWorld_mode mi mo i o(2) a 1 2 3 4 by simp
qed

end
